theory Spec2Isabelle
  imports Complex_Main
begin

section \<open>The physics engine: speed and fuel models\<close>

text \<open>
  The development follows \<^verbatim>\<open>Fleet_Dynamic_Dispatch.py\<close>. Python floats are
  read as real numbers: rounding, NaN and overflow are outside the model. The one
  non-finite value the program creates on purpose, \<^verbatim>\<open>float('inf')\<close>, is a
  constructor of its own in the result type of \<open>calculate_fuel_cost\<close>.
\<close>

subsection \<open>Linear interpolation as the program's \<^verbatim>\<open>interp1d\<close> call evaluates it\<close>

text \<open>
  \<^verbatim>\<open>np.searchsorted(x, v)\<close> (left side) on an ascending array: the first index
  whose entry is not below \<open>v\<close>, the length when there is none.
\<close>

definition searchsorted :: "real list \<Rightarrow> real \<Rightarrow> nat" where
  "searchsorted xs v = length (takeWhile (\<lambda>x. x < v) xs)"

text \<open>
  \<^verbatim>\<open>interp1d(x, y, kind='linear', fill_value="extrapolate")\<close> called at
  \<open>x_new\<close>: the index found by \<open>searchsorted\<close> is clipped to \<open>1 .. len(x) - 1\<close>,
  which selects the first segment below the table and the last one above it; with
  \<^verbatim>\<open>"extrapolate"\<close> no bounds check follows. The value is
  \<^verbatim>\<open>slope * (x_new - x_lo) + y_lo\<close>.
\<close>

definition interp1d_linear :: "real list \<Rightarrow> real list \<Rightarrow> real \<Rightarrow> real" where
  "interp1d_linear xs ys x_new =
     (let i = min (length xs - 1) (max 1 (searchsorted xs x_new));
          lo = i - 1;
          hi = i;
          x_lo = xs ! lo;
          x_hi = xs ! hi;
          y_lo = ys ! lo;
          y_hi = ys ! hi;
          slope = (y_hi - y_lo) / (x_hi - x_lo)
      in slope * (x_new - x_lo) + y_lo)"

definition grades :: "real list" where
  "grades = [0, 5, 10, 15]"

definition speeds :: "real list" where
  "speeds = [40, 25, 12, 8]"

definition get_optimal_speed :: "real \<Rightarrow> real" where
  "get_optimal_speed grade_percent = interp1d_linear grades speeds grade_percent"

subsection \<open>Fuel cost of one route\<close>

text \<open>
  \<open>calculate_fuel_cost\<close> has two return statements of different shape: the bare float
  \<^verbatim>\<open>float('inf')\<close> when the speed is not positive, and the pair
  \<^verbatim>\<open>(total_fuel_liters, opt_speed_kmh)\<close> otherwise. It has no \<^verbatim>\<open>raise\<close>.
\<close>

datatype fuel_result = ScalarInf | FuelAndSpeed real real

definition calculate_fuel_cost :: "real \<Rightarrow> real \<Rightarrow> fuel_result" where
  "calculate_fuel_cost distance_km grade_percent =
     (let grade_used = max grade_percent 0;
          fuel_burn_rate_lph = 180 + (25 * grade_used) + (8 * grade_used\<^sup>2);
          opt_speed_kmh = get_optimal_speed grade_used
      in if opt_speed_kmh \<le> 0 then ScalarInf
         else (let travel_time_hours = distance_km / opt_speed_kmh;
                   total_fuel_liters = fuel_burn_rate_lph * travel_time_hours
               in FuelAndSpeed total_fuel_liters opt_speed_kmh))"

text \<open>
  The speed curve in the words of the specification: the straight line through two
  neighbouring anchors of the table 0 \<rightarrow> 40, 5 \<rightarrow> 25, 10 \<rightarrow> 12, 15 \<rightarrow> 8; inside
  \<open>[0, 15]\<close> the segment that holds the grade, outside the nearest one.
\<close>

definition segment_line :: "real \<times> real \<Rightarrow> real \<times> real \<Rightarrow> real \<Rightarrow> real" where
  "segment_line p q g = snd p + (g - fst p) * ((snd q - snd p) / (fst q - fst p))"

definition spec_optimal_speed :: "real \<Rightarrow> real" where
  "spec_optimal_speed g =
     (if g < 0 then segment_line (0, 40) (5, 25) g
      else if g \<le> 5 then segment_line (0, 40) (5, 25) g
      else if g \<le> 10 then segment_line (5, 25) (10, 12) g
      else if g \<le> 15 then segment_line (10, 12) (15, 8) g
      else segment_line (10, 12) (15, 8) g)"

section \<open>The dispatch optimizer\<close>

subsection \<open>Input records and Python errors\<close>

text \<open>
  A truck is the dictionary \<^verbatim>\<open>{'id': ...}\<close>; a shovel carries \<^verbatim>\<open>'id'\<close>,
  \<^verbatim>\<open>'max_queue'\<close>, \<^verbatim>\<open>'distance_from_trucks'\<close> (a dictionary keyed by truck
  id) and \<^verbatim>\<open>'grade_percent'\<close>.
\<close>

record truck =
  truck_id :: string

record shovel =
  shovel_id :: string
  max_queue :: int
  distance_from_trucks :: "string \<rightharpoonup> real"
  grade_percent :: real

text \<open>
  The exceptions the optimizer can raise: a missing dictionary key; the unpacking of a
  bare float into two names, or the formatting of \<^verbatim>\<open>None\<close> as a number; and an
  error raised inside the solver call.
\<close>

datatype py_error = KeyError | TypeError | PulpError

type_synonym route = "string \<times> string"

definition route_of :: "truck \<times> shovel \<Rightarrow> route" where
  "route_of p = (truck_id (fst p), shovel_id (snd p))"

text \<open>The iteration order of \<^verbatim>\<open>for t in trucks for s in shovels\<close>.\<close>

definition pairs :: "truck list \<Rightarrow> shovel list \<Rightarrow> (truck \<times> shovel) list" where
  "pairs trucks shovels = concat (map (\<lambda>t. map (\<lambda>s. (t, s)) shovels) trucks)"

definition routes :: "truck list \<Rightarrow> shovel list \<Rightarrow> route list" where
  "routes trucks shovels = map route_of (pairs trucks shovels)"

subsection \<open>The cost matrix\<close>

text \<open>
  One pass of the loop body at lines 84 to 88: the distance lookup raises
  \<open>KeyError\<close> when the truck has no entry, and
  \<^verbatim>\<open>fuel_cost, opt_speed = calculate_fuel_cost(dist, grade)\<close> raises
  \<open>TypeError\<close> when the call returned the bare float.
\<close>

definition cost_entry :: "truck \<times> shovel \<Rightarrow> py_error + (real \<times> real)" where
  "cost_entry p =
     (case distance_from_trucks (snd p) (truck_id (fst p)) of
        None \<Rightarrow> Inl KeyError
      | Some distance \<Rightarrow>
          (case calculate_fuel_cost distance (grade_percent (snd p)) of
             ScalarInf \<Rightarrow> Inl TypeError
           | FuelAndSpeed fuel_cost opt_speed \<Rightarrow> Inr (fuel_cost, opt_speed)))"

text \<open>
  The two dictionaries \<^verbatim>\<open>costs\<close> and \<^verbatim>\<open>speed_log\<close>, filled in iteration
  order; the first exception ends the loop.
\<close>

fun cost_matrix ::
  "(truck \<times> shovel) list \<Rightarrow> (route \<rightharpoonup> real) \<times> (route \<rightharpoonup> real) \<Rightarrow>
   py_error + ((route \<rightharpoonup> real) \<times> (route \<rightharpoonup> real))" where
  "cost_matrix [] acc = Inr acc"
| "cost_matrix (p # ps) acc =
     (case cost_entry p of
        Inl e \<Rightarrow> Inl e
      | Inr (fuel_cost, opt_speed) \<Rightarrow>
          cost_matrix ps ((fst acc)(route_of p \<mapsto> fuel_cost), (snd acc)(route_of p \<mapsto> opt_speed)))"

subsection \<open>The integer program handed to the solver\<close>

text \<open>
  An affine expression of PuLP is a list of (variable, coefficient) terms; the binary
  variable \<^verbatim>\<open>x[(t['id'], s['id'])]\<close> is named by its key. A constraint compares such
  an expression with a constant.
\<close>

datatype sense = LE | EQ | GE

record lp_constraint =
  lhs :: "(route \<times> real) list"
  rel :: sense
  rhs :: real

record lp_problem =
  binaries :: "route list"
  objective :: "(route \<times> real) list"
  constraints :: "lp_constraint list"

datatype lp_status = NotSolved | Optimal | Infeasible | Unbounded | Undefined

record solution =
  status :: lp_status
  var_value :: "route \<Rightarrow> real"

definition lp_value :: "(route \<Rightarrow> real) \<Rightarrow> (route \<times> real) list \<Rightarrow> real" where
  "lp_value v e = sum_list (map (\<lambda>(r, c). c * v r) e)"

text \<open>Dictionary lookup \<^verbatim>\<open>d[k]\<close>.\<close>

definition lookup :: "('k \<rightharpoonup> 'v) \<Rightarrow> 'k \<Rightarrow> py_error + 'v" where
  "lookup d k = (case d k of None \<Rightarrow> Inl KeyError | Some v \<Rightarrow> Inr v)"

text \<open>A list comprehension whose element expression may raise.\<close>

fun collect :: "('a \<Rightarrow> py_error + 'b) \<Rightarrow> 'a list \<Rightarrow> py_error + 'b list" where
  "collect f [] = Inr []"
| "collect f (x # xs) =
     (case f x of
        Inl e \<Rightarrow> Inl e
      | Inr y \<Rightarrow> (case collect f xs of Inl e \<Rightarrow> Inl e | Inr ys \<Rightarrow> Inr (y # ys)))"

text \<open>
  The product \<^verbatim>\<open>x[...] * cost\<close> of a variable and a number, as PuLP forms it: the
  expression with the one term of that coefficient, and the expression with no term at
  all when the number is zero.
\<close>

definition var_times :: "route \<Rightarrow> real \<Rightarrow> (route \<times> real) list" where
  "var_times r c = (if c \<noteq> 0 then [(r, c)] else [])"

text \<open>
  Line 95: one product per route, its coefficient read from \<^verbatim>\<open>costs\<close>, and
  \<^verbatim>\<open>lpSum\<close> of the products.
\<close>

definition objective_terms ::
  "(route \<rightharpoonup> real) \<Rightarrow> truck list \<Rightarrow> shovel list \<Rightarrow> py_error + (route \<times> real) list" where
  "objective_terms costs trucks shovels =
     (case collect
             (\<lambda>p. case lookup costs (route_of p) of
                     Inl e \<Rightarrow> Inl e
                   | Inr c \<Rightarrow> Inr (var_times (route_of p) c))
             (pairs trucks shovels) of
        Inl e \<Rightarrow> Inl e
      | Inr products \<Rightarrow> Inr (concat products))"

text \<open>
  \<^verbatim>\<open>pulp.value(prob.objective)\<close> after the solver has run. For an objective with
  no term PuLP solves with a placeholder variable that it leaves in the expression
  without a value, and the value read back is \<^verbatim>\<open>None\<close>; otherwise it is the sum
  of coefficient times variable value.
\<close>

definition objective_value :: "(route \<Rightarrow> real) \<Rightarrow> (route \<times> real) list \<Rightarrow> real option" where
  "objective_value v e = (if e = [] then None else Some (lp_value v e))"

text \<open>Constraint A (line 101): every truck goes to exactly one shovel.\<close>

definition constraint_A :: "shovel list \<Rightarrow> truck \<Rightarrow> lp_constraint" where
  "constraint_A shovels t =
     \<lparr>lhs = map (\<lambda>s. (route_of (t, s), 1)) shovels, rel = EQ, rhs = 1\<rparr>"

text \<open>Constraint B (line 106): a shovel takes at most \<^verbatim>\<open>max_queue\<close> trucks.\<close>

definition constraint_B :: "truck list \<Rightarrow> shovel \<Rightarrow> lp_constraint" where
  "constraint_B trucks s =
     \<lparr>lhs = map (\<lambda>t. (route_of (t, s), 1)) trucks, rel = LE, rhs = real_of_int (max_queue s)\<rparr>"

definition build_problem ::
  "(route \<times> real) list \<Rightarrow> truck list \<Rightarrow> shovel list \<Rightarrow> lp_problem" where
  "build_problem obj trucks shovels =
     \<lparr>binaries = routes trucks shovels,
      objective = obj,
      constraints = map (constraint_A shovels) trucks @ map (constraint_B trucks) shovels\<rparr>"

subsection \<open>The report\<close>

text \<open>
  The function prints and returns nothing; its observable result is what it prints.
  A row of the table is (truck, destination, speed, fuel); the numbers are kept as
  computed, before the format specifiers round them for display.
\<close>

type_synonym row = "string \<times> string \<times> real \<times> real"

datatype report =
    OptimalReport real "row list"
  | NoOptimalSolution lp_status

definition report_rows ::
  "(route \<Rightarrow> real) \<Rightarrow> (route \<rightharpoonup> real) \<Rightarrow> (route \<rightharpoonup> real) \<Rightarrow> truck \<times> shovel \<Rightarrow>
   py_error + row list" where
  "report_rows v costs speed_log p =
     (if v (route_of p) = 1 then
        (case lookup costs (route_of p) of
           Inl e \<Rightarrow> Inl e
         | Inr cost \<Rightarrow>
             (case lookup speed_log (route_of p) of
                Inl e \<Rightarrow> Inl e
              | Inr spd \<Rightarrow> Inr [(truck_id (fst p), shovel_id (snd p), spd, cost)]))
      else Inr [])"

text \<open>
  Lines 70 to 106: the cost matrix, the objective and the constraints, in the order the
  program builds them. The result is the two dictionaries and the problem.
\<close>

definition formulate ::
  "truck list \<Rightarrow> shovel list \<Rightarrow>
   py_error + ((route \<rightharpoonup> real) \<times> (route \<rightharpoonup> real) \<times> lp_problem)" where
  "formulate trucks shovels =
     (case cost_matrix (pairs trucks shovels) (Map.empty, Map.empty) of
        Inl e \<Rightarrow> Inl e
      | Inr (costs, speed_log) \<Rightarrow>
          (case objective_terms costs trucks shovels of
             Inl e \<Rightarrow> Inl e
           | Inr obj \<Rightarrow> Inr (costs, speed_log, build_problem obj trucks shovels)))"

text \<open>
  \<open>opt_fleet_dispatch\<close>, with the external solver call
  \<^verbatim>\<open>prob.solve(pulp.PULP_CBC_CMD(msg=False))\<close> as the parameter \<open>solve\<close>: it
  either raises (PuLP refuses, for one, a problem whose variable names coincide) or maps
  the problem to the status and the variable values PuLP reads back. Lines 112 to 129
  print the table only under status \<^verbatim>\<open>'Optimal'\<close>; the format
  \<^verbatim>\<open>{total_fuel:.2f}\<close> at line 117 raises \<open>TypeError\<close> when the total is
  \<^verbatim>\<open>None\<close>.
\<close>

definition opt_fleet_dispatch ::
  "(lp_problem \<Rightarrow> py_error + solution) \<Rightarrow> truck list \<Rightarrow> shovel list \<Rightarrow> py_error + report" where
  "opt_fleet_dispatch solve trucks shovels =
     (case formulate trucks shovels of
        Inl e \<Rightarrow> Inl e
      | Inr (costs, speed_log, prob) \<Rightarrow>
          (case solve prob of
             Inl e \<Rightarrow> Inl e
           | Inr sol \<Rightarrow>
               if status sol = Optimal then
                 (case objective_value (var_value sol) (objective prob) of
                    None \<Rightarrow> Inl TypeError
                  | Some total_fuel \<Rightarrow>
                      (case collect (report_rows (var_value sol) costs speed_log)
                              (pairs trucks shovels) of
                         Inl e \<Rightarrow> Inl e
                       | Inr rows \<Rightarrow> Inr (OptimalReport total_fuel (concat rows))))
               else Inr (NoOptimalSolution (status sol))))"

subsection \<open>What is assumed of the solver\<close>

text \<open>
  CBC is not part of the repository. The theorems about the optimizer assume, for the
  one problem the program builds, that the solver call returns and does what PuLP
  documents: status \<open>Optimal\<close> with a feasible point of least objective value when the
  problem has a feasible point, status \<open>Infeasible\<close> otherwise.
\<close>

definition holds :: "(route \<Rightarrow> real) \<Rightarrow> lp_constraint \<Rightarrow> bool" where
  "holds v c =
     (case rel c of
        LE \<Rightarrow> lp_value v (lhs c) \<le> rhs c
      | EQ \<Rightarrow> lp_value v (lhs c) = rhs c
      | GE \<Rightarrow> lp_value v (lhs c) \<ge> rhs c)"

definition feasible :: "lp_problem \<Rightarrow> (route \<Rightarrow> real) \<Rightarrow> bool" where
  "feasible P v \<longleftrightarrow>
     (\<forall>r \<in> set (binaries P). v r = 0 \<or> v r = 1) \<and> (\<forall>c \<in> set (constraints P). holds v c)"

definition solver_contract :: "(lp_problem \<Rightarrow> py_error + solution) \<Rightarrow> lp_problem \<Rightarrow> bool" where
  "solver_contract solve P \<longleftrightarrow>
     (case solve P of
        Inl e \<Rightarrow> False
      | Inr sol \<Rightarrow>
          (if \<exists>v. feasible P v
           then status sol = Optimal \<and> feasible P (var_value sol) \<and>
                (\<forall>v. feasible P v \<longrightarrow>
                     lp_value (var_value sol) (objective P) \<le> lp_value v (objective P))
           else status sol = Infeasible))"

text \<open>The contract, for the problem the program builds from the given input.\<close>

definition solver_ok ::
  "(lp_problem \<Rightarrow> py_error + solution) \<Rightarrow> truck list \<Rightarrow> shovel list \<Rightarrow> bool" where
  "solver_ok solve trucks shovels \<longleftrightarrow>
     (case formulate trucks shovels of
        Inl e \<Rightarrow> True
      | Inr (costs, speed_log, prob) \<Rightarrow> solver_contract solve prob)"

subsection \<open>A reference solver\<close>

text \<open>
  Exhaustive search over all 0/1 values of the binary variables: a solver that meets
  the contract on every problem whose expressions mention declared variables only. It
  stands for the external solver where a concrete one is needed.
\<close>

fun candidates :: "route list \<Rightarrow> (route \<Rightarrow> real) list" where
  "candidates [] = [\<lambda>r. 0]"
| "candidates (r # rs) = concat (map (\<lambda>v. [v(r := 0), v(r := 1)]) (candidates rs))"

definition cheapest ::
  "(route \<times> real) list \<Rightarrow> (route \<Rightarrow> real) \<Rightarrow> (route \<Rightarrow> real) list \<Rightarrow> route \<Rightarrow> real" where
  "cheapest obj v vs =
     fold (\<lambda>w best. if lp_value w obj < lp_value best obj then w else best) vs v"

definition exhaustive_solve :: "lp_problem \<Rightarrow> py_error + solution" where
  "exhaustive_solve P =
     (case filter (feasible P) (candidates (binaries P)) of
        [] \<Rightarrow> Inr \<lparr>status = Infeasible, var_value = (\<lambda>r. 0)\<rparr>
      | v # vs \<Rightarrow> Inr \<lparr>status = Optimal, var_value = cheapest (objective P) v vs\<rparr>)"

definition closed_problem :: "lp_problem \<Rightarrow> bool" where
  "closed_problem P \<longleftrightarrow>
     fst ` set (objective P) \<subseteq> set (binaries P) \<and>
     (\<forall>c \<in> set (constraints P). fst ` set (lhs c) \<subseteq> set (binaries P))"

subsection \<open>Assignments, as the claims speak of them\<close>

text \<open>
  An assignment sends every truck id to one shovel id. It is admissible when each truck
  of the list goes to a shovel of the list and no shovel receives more trucks than its
  \<open>max_queue\<close>. The fuel and the speed of a pair are what \<open>cost_entry\<close> computes.
\<close>

definition load :: "truck list \<Rightarrow> (string \<Rightarrow> string) \<Rightarrow> shovel \<Rightarrow> nat" where
  "load trucks a s = length (filter (\<lambda>t. a (truck_id t) = shovel_id s) trucks)"

definition admissible :: "truck list \<Rightarrow> shovel list \<Rightarrow> (string \<Rightarrow> string) \<Rightarrow> bool" where
  "admissible trucks shovels a \<longleftrightarrow>
     (\<forall>t \<in> set trucks. a (truck_id t) \<in> shovel_id ` set shovels) \<and>
     (\<forall>s \<in> set shovels. int (load trucks a s) \<le> max_queue s)"

definition pair_fuel :: "truck \<times> shovel \<Rightarrow> real" where
  "pair_fuel p = (case cost_entry p of Inr (f, v) \<Rightarrow> f | Inl e \<Rightarrow> 0)"

definition pair_speed :: "truck \<times> shovel \<Rightarrow> real" where
  "pair_speed p = (case cost_entry p of Inr (f, v) \<Rightarrow> v | Inl e \<Rightarrow> 0)"

definition row_of :: "truck \<times> shovel \<Rightarrow> row" where
  "row_of p = (truck_id (fst p), shovel_id (snd p), pair_speed p, pair_fuel p)"

text \<open>The table rows of an assignment, in the order of the truck list.\<close>

definition assignment_rows ::
  "truck list \<Rightarrow> shovel list \<Rightarrow> (string \<Rightarrow> string) \<Rightarrow> row list" where
  "assignment_rows trucks shovels a =
     concat (map (\<lambda>p. if a (truck_id (fst p)) = shovel_id (snd p) then [row_of p] else [])
       (pairs trucks shovels))"

definition row_fuel :: "row \<Rightarrow> real" where
  "row_fuel r = snd (snd (snd r))"

definition assignment_cost ::
  "truck list \<Rightarrow> shovel list \<Rightarrow> (string \<Rightarrow> string) \<Rightarrow> real" where
  "assignment_cost trucks shovels a = sum_list (map row_fuel (assignment_rows trucks shovels a))"

text \<open>The variable values that encode an assignment.\<close>

definition of_assignment :: "(string \<Rightarrow> string) \<Rightarrow> route \<Rightarrow> real" where
  "of_assignment a r = (if a (fst r) = snd r then 1 else 0)"

text \<open>
  Every pair has a distance entry and a clamped grade below 25, so that every route has
  a finite cost and a positive speed.
\<close>

definition costs_defined :: "truck list \<Rightarrow> shovel list \<Rightarrow> bool" where
  "costs_defined trucks shovels \<longleftrightarrow>
     (\<forall>t \<in> set trucks. \<forall>s \<in> set shovels.
        distance_from_trucks s (truck_id t) \<noteq> None \<and> max (grade_percent s) 0 < 25)"

subsection \<open>The data of the simulation run\<close>

text \<open>
  The fleet and the shovels of the main block; the two grades are what the user enters
  for the roads to \<^verbatim>\<open>Shovel_A\<close> and \<^verbatim>\<open>Shovel_B\<close>.
\<close>

definition truck_fleet :: "truck list" where
  "truck_fleet = [\<lparr>truck_id = ''Truck_1''\<rparr>, \<lparr>truck_id = ''Truck_2''\<rparr>, \<lparr>truck_id = ''Truck_3''\<rparr>]"

definition shovel_data :: "real \<Rightarrow> real \<Rightarrow> shovel list" where
  "shovel_data grade_A grade_B =
     [\<lparr>shovel_id = ''Shovel_A'', max_queue = 2,
       distance_from_trucks = [''Truck_1'' \<mapsto> 2, ''Truck_2'' \<mapsto> 5, ''Truck_3'' \<mapsto> 3],
       grade_percent = grade_A\<rparr>,
      \<lparr>shovel_id = ''Shovel_B'', max_queue = 2,
       distance_from_trucks = [''Truck_1'' \<mapsto> 8, ''Truck_2'' \<mapsto> 1, ''Truck_3'' \<mapsto> 9],
       grade_percent = grade_B\<rparr>]"

text \<open>The same shovels with every queue limit replaced by \<open>q\<close>.\<close>

definition with_capacity :: "int \<Rightarrow> shovel list \<Rightarrow> shovel list" where
  "with_capacity q shovels = map (\<lambda>s. s\<lparr>max_queue := q\<rparr>) shovels"

text \<open>The assignment that sends \<^verbatim>\<open>Truck_2\<close> to \<^verbatim>\<open>Shovel_B\<close> and the others to \<^verbatim>\<open>Shovel_A\<close>.\<close>

definition nearest_shovel :: "string \<Rightarrow> string" where
  "nearest_shovel i = (if i = ''Truck_2'' then ''Shovel_B'' else ''Shovel_A'')"

definition truck_1 :: "truck list" where
  "truck_1 = [\<lparr>truck_id = ''Truck_1''\<rparr>]"

definition to_shovel_B :: "string \<Rightarrow> string" where
  "to_shovel_B i = ''Shovel_B''"

definition to_shovel_A :: "string \<Rightarrow> string" where
  "to_shovel_A i = ''Shovel_A''"

text \<open>One shovel on a flat road, with \<^verbatim>\<open>Truck_1\<close> standing at it.\<close>

definition shovel_at_truck_1 :: "shovel list" where
  "shovel_at_truck_1 =
     [\<lparr>shovel_id = ''Shovel_A'', max_queue = 2,
       distance_from_trucks = [''Truck_1'' \<mapsto> 0],
       grade_percent = 0\<rparr>]"

section \<open>Properties of the cost model\<close>

lemma get_optimal_speed_cases:
  "get_optimal_speed g =
     (if g \<le> 5 then 40 - 3 * g
      else if g \<le> 10 then 25 - (13 / 5) * (g - 5)
      else 12 - (4 / 5) * (g - 10))"
  by (simp add: get_optimal_speed_def interp1d_linear_def searchsorted_def grades_def
      speeds_def Let_def field_simps)

lemma get_optimal_speed_pos_iff: "0 \<le> g \<Longrightarrow> 0 < get_optimal_speed g \<longleftrightarrow> g < 25"
  by (simp add: get_optimal_speed_cases)

lemma calculate_fuel_cost_pair:
  "0 < get_optimal_speed (max g 0) \<Longrightarrow>
   calculate_fuel_cost d g =
     FuelAndSpeed ((180 + 25 * max g 0 + 8 * (max g 0)\<^sup>2) * (d / get_optimal_speed (max g 0)))
       (get_optimal_speed (max g 0))"
  by (simp add: calculate_fuel_cost_def Let_def)

lemma calculate_fuel_cost_inf:
  "get_optimal_speed (max g 0) \<le> 0 \<Longrightarrow> calculate_fuel_cost d g = ScalarInf"
  by (simp add: calculate_fuel_cost_def Let_def)

lemma burn_rate_pos: "0 \<le> g \<Longrightarrow> 0 < 180 + 25 * g + 8 * g\<^sup>2" for g :: real
  by (smt (verit) mult_nonneg_nonneg zero_le_power2)

text \<open>
  Claim C4. For a non-negative distance \<open>d\<close> and a grade \<open>g\<close> whose clamped value
  \<open>g' = max g 0\<close> has a positive optimal speed, the fuel cost is the pair of
  \<open>(180 + 25 g' + 8 g'\<^sup>2) \<sdot> (d / speed)\<close> and \<open>speed = get_optimal_speed g'\<close>.
\<close>

theorem fuel_cost_formula:
  "0 \<le> d \<Longrightarrow> 0 < get_optimal_speed (max g 0) \<Longrightarrow>
   calculate_fuel_cost d g =
     FuelAndSpeed ((180 + 25 * max g 0 + 8 * (max g 0)\<^sup>2) * (d / get_optimal_speed (max g 0)))
       (get_optimal_speed (max g 0))"
  by (rule calculate_fuel_cost_pair)

theorem fuel_cost_formula_witness:
  "(0::real) \<le> 2 \<and> 0 < get_optimal_speed (max 5 0) \<and>
   calculate_fuel_cost 2 5 = FuelAndSpeed 40.4 25"
  using fuel_cost_formula [of 2 5] by (simp add: get_optimal_speed_cases)

text \<open>
  Claim C5. The speed function agrees everywhere with the piecewise-linear curve
  through the anchors 0 \<rightarrow> 40, 5 \<rightarrow> 25, 10 \<rightarrow> 12, 15 \<rightarrow> 8 as the specification words
  it; it returns each anchor exactly; above 15 it continues the last segment's line and
  below 0 the first segment's line, with no clamping; at grade 20 it gives
  \<open>8 + (20 - 15) \<sdot> ((8 - 12) / (15 - 10)) = 4\<close>.
\<close>

theorem optimal_speed_interpolates:
  "(\<forall>g. get_optimal_speed g = spec_optimal_speed g) \<and>
   get_optimal_speed 0 = 40 \<and> get_optimal_speed 5 = 25 \<and>
   get_optimal_speed 10 = 12 \<and> get_optimal_speed 15 = 8 \<and>
   (\<forall>e. get_optimal_speed (15 + \<bar>e\<bar>) = 8 + \<bar>e\<bar> * ((8 - 12) / (15 - 10))) \<and>
   (\<forall>e. get_optimal_speed (- \<bar>e\<bar>) = 40 + (- \<bar>e\<bar>) * ((25 - 40) / (5 - 0))) \<and>
   get_optimal_speed 20 = 8 + (20 - 15) * ((8 - 12) / (15 - 10)) \<and>
   get_optimal_speed 20 = 4"
proof -
  have "\<And>g. get_optimal_speed g = spec_optimal_speed g"
    by (simp add: get_optimal_speed_cases spec_optimal_speed_def segment_line_def field_simps)
  moreover have "\<And>e. get_optimal_speed (15 + \<bar>e\<bar>) = 8 + \<bar>e\<bar> * ((8 - 12) / (15 - 10))"
    by (auto simp add: get_optimal_speed_cases field_simps)
  moreover have "\<And>e. get_optimal_speed (- \<bar>e\<bar>) = 40 + (- \<bar>e\<bar>) * ((25 - 40) / (5 - 0))"
    by (auto simp add: get_optimal_speed_cases field_simps)
  ultimately show ?thesis
    by (simp add: get_optimal_speed_cases)
qed

text \<open>
  Claim C7, as stated: a negative distance is rejected with an error. The function has
  no check of its distance argument: at distance \<open>-40\<close> and grade \<open>0\<close> it returns
  the pair of \<open>-180\<close> liters and 40 km/h, computed from a travel time of \<open>-1\<close> hour.
\<close>

theorem negative_distance_not_rejected:
  "calculate_fuel_cost (- 40) 0 = FuelAndSpeed (- 180) 40"
  by (simp add: calculate_fuel_cost_def get_optimal_speed_cases)

text \<open>
  Claim C7, amended. For every negative distance \<open>d\<close> and every grade whose clamped
  value \<open>g'\<close> is below 25, the function raises nothing and returns the pair of
  \<open>(180 + 25 g' + 8 g'\<^sup>2) \<sdot> (d / speed)\<close>, a negative amount of fuel, and the speed.
\<close>

theorem negative_distance_negative_fuel:
  "d < 0 \<Longrightarrow> max g 0 < 25 \<Longrightarrow>
   (\<exists>f. calculate_fuel_cost d g = FuelAndSpeed f (get_optimal_speed (max g 0)) \<and>
        f = (180 + 25 * max g 0 + 8 * (max g 0)\<^sup>2) * (d / get_optimal_speed (max g 0)) \<and>
        f < 0)"
proof -
  assume d: "d < 0" and g: "max g 0 < 25"
  have v: "0 < get_optimal_speed (max g 0)"
    using g by (simp add: get_optimal_speed_pos_iff)
  have b: "0 < 180 + 25 * max g 0 + 8 * (max g 0)\<^sup>2"
    by (rule burn_rate_pos) simp
  have "d / get_optimal_speed (max g 0) < 0"
    using d v by (simp add: divide_neg_pos)
  with b have "(180 + 25 * max g 0 + 8 * (max g 0)\<^sup>2) * (d / get_optimal_speed (max g 0)) < 0"
    by (rule mult_pos_neg)
  then show ?thesis
    using calculate_fuel_cost_pair [OF v, of d] by simp
qed

theorem negative_distance_negative_fuel_witness:
  "(- 40::real) < 0 \<and> max (0::real) 0 < 25 \<and>
   (\<exists>f. calculate_fuel_cost (- 40) 0 = FuelAndSpeed f (get_optimal_speed (max 0 0)) \<and>
        f = (180 + 25 * max 0 0 + 8 * (max 0 0)\<^sup>2) * (- 40 / get_optimal_speed (max 0 0)) \<and>
        f < 0)"
  using negative_distance_negative_fuel [of "- 40" 0] by simp

text \<open>
  Claim C8. A negative grade gives exactly the result of grade 0, fuel and speed alike,
  for every distance.
\<close>

theorem negative_grade_clamped:
  "g < 0 \<Longrightarrow> calculate_fuel_cost d g = calculate_fuel_cost d 0"
  by (simp add: calculate_fuel_cost_def max_def)

theorem negative_grade_clamped_witness:
  "(- 3::real) < 0 \<and> calculate_fuel_cost 2 (- 3) = calculate_fuel_cost 2 0 \<and>
   calculate_fuel_cost 2 (- 3) = FuelAndSpeed 9 40"
  using negative_grade_clamped [of "- 3" 2]
  by (simp add: calculate_fuel_cost_def get_optimal_speed_cases)

text \<open>
  Claim C9. For a non-negative distance and a grade whose clamped value is below 25, the
  result is a pair (so both numbers are finite reals) whose fuel is non-negative and
  whose speed is positive.
\<close>

theorem route_cost_nonneg_speed_pos:
  "0 \<le> d \<Longrightarrow> max g 0 < 25 \<Longrightarrow>
   \<exists>f v. calculate_fuel_cost d g = FuelAndSpeed f v \<and> 0 \<le> f \<and> 0 < v"
proof -
  assume d: "0 \<le> d" and g: "max g 0 < 25"
  have v: "0 < get_optimal_speed (max g 0)"
    using g by (simp add: get_optimal_speed_pos_iff)
  have b: "0 < 180 + 25 * max g 0 + 8 * (max g 0)\<^sup>2"
    by (rule burn_rate_pos) simp
  have "0 \<le> (180 + 25 * max g 0 + 8 * (max g 0)\<^sup>2) * (d / get_optimal_speed (max g 0))"
    using d v b by simp
  with v show ?thesis
    using calculate_fuel_cost_pair [OF v, of d] by blast
qed

theorem route_cost_nonneg_speed_pos_witness:
  "(0::real) \<le> 3 \<and> max (10::real) 0 < 25 \<and>
   (\<exists>f v. calculate_fuel_cost 3 10 = FuelAndSpeed f v \<and> 0 \<le> f \<and> 0 < v) \<and>
   calculate_fuel_cost 3 10 = FuelAndSpeed 307.5 12"
  using route_cost_nonneg_speed_pos [of 3 10]
  by (simp add: calculate_fuel_cost_def get_optimal_speed_cases)

section \<open>Properties of the optimizer\<close>

subsection \<open>The cost matrix and the problem\<close>

lemma set_pairs: "set (pairs trucks shovels) = set trucks \<times> set shovels"
  by (auto simp: pairs_def)

lemma cost_entry_Inr:
  "cost_entry p = Inr x \<Longrightarrow> x = (pair_fuel p, pair_speed p)"
  by (cases x) (simp add: pair_fuel_def pair_speed_def)

lemma cost_entry_defined:
  assumes "distance_from_trucks (snd p) (truck_id (fst p)) \<noteq> None"
    and "max (grade_percent (snd p)) 0 < 25"
  shows "cost_entry p = Inr (pair_fuel p, pair_speed p)"
proof -
  obtain d where d: "distance_from_trucks (snd p) (truck_id (fst p)) = Some d"
    using assms(1) by blast
  have "0 < get_optimal_speed (max (grade_percent (snd p)) 0)"
    using assms(2) by (simp add: get_optimal_speed_pos_iff)
  then have "\<exists>x. cost_entry p = Inr x"
    using d by (simp add: cost_entry_def calculate_fuel_cost_pair)
  then show ?thesis
    using cost_entry_Inr by blast
qed

lemma cost_entry_costs_defined:
  "costs_defined trucks shovels \<Longrightarrow> p \<in> set (pairs trucks shovels) \<Longrightarrow>
   cost_entry p = Inr (pair_fuel p, pair_speed p)"
  by (rule cost_entry_defined) (auto simp: costs_defined_def set_pairs)

lemma cost_matrix_Inl:
  "cost_matrix ps acc = Inl e \<Longrightarrow> \<exists>p \<in> set ps. cost_entry p = Inl e"
  by (induction ps arbitrary: acc) (auto split: sum.splits prod.splits)

lemma cost_matrix_Inr:
  "cost_matrix ps acc = Inr r \<Longrightarrow> p \<in> set ps \<Longrightarrow> \<exists>x. cost_entry p = Inr x"
  by (induction ps arbitrary: acc) (auto split: sum.splits prod.splits)

lemma cost_matrix_fails:
  "p \<in> set ps \<Longrightarrow> cost_entry p = Inl e \<Longrightarrow> \<exists>e'. cost_matrix ps acc = Inl e'"
  by (metis cost_matrix_Inr sum.exhaust_sel sum.disc(1) sum.disc(2) isl_def)

lemma cost_matrix_ok:
  assumes "\<forall>p \<in> set ps. cost_entry p = Inr (pair_fuel p, pair_speed p)"
    and "inj_on route_of (set ps)"
  shows "\<exists>c v. cost_matrix ps acc = Inr (c, v) \<and>
           (\<forall>p \<in> set ps. c (route_of p) = Some (pair_fuel p) \<and> v (route_of p) = Some (pair_speed p)) \<and>
           (\<forall>r. r \<notin> route_of ` set ps \<longrightarrow> c r = fst acc r \<and> v r = snd acc r)"
  using assms
proof (induction ps arbitrary: acc)
  case Nil
  then show ?case by (cases acc) simp
next
  case (Cons p ps)
  let ?acc = "((fst acc)(route_of p \<mapsto> pair_fuel p), (snd acc)(route_of p \<mapsto> pair_speed p))"
  have inj: "inj_on route_of (set ps)"
    using Cons.prems(2) by (simp add: inj_on_def)
  from Cons.IH[of ?acc] Cons.prems(1) inj
  obtain c v where cv: "cost_matrix ps ?acc = Inr (c, v)"
    and hit: "\<forall>q \<in> set ps. c (route_of q) = Some (pair_fuel q) \<and> v (route_of q) = Some (pair_speed q)"
    and miss: "\<forall>r. r \<notin> route_of ` set ps \<longrightarrow> c r = fst ?acc r \<and> v r = snd ?acc r"
    by auto
  have step: "cost_matrix (p # ps) acc = Inr (c, v)"
    using Cons.prems(1) cv by simp
  have here: "c (route_of p) = Some (pair_fuel p) \<and> v (route_of p) = Some (pair_speed p)"
  proof (cases "route_of p \<in> route_of ` set ps")
    case True
    then obtain q where q: "q \<in> set ps" "route_of q = route_of p" by auto
    then have "q = p"
      using Cons.prems(2) by (auto simp: inj_on_def)
    then show ?thesis using hit q by auto
  next
    case False
    with miss have "c (route_of p) = fst ?acc (route_of p) \<and> v (route_of p) = snd ?acc (route_of p)"
      by blast
    then show ?thesis by simp
  qed
  have "\<forall>r. r \<notin> route_of ` set (p # ps) \<longrightarrow> c r = fst acc r \<and> v r = snd acc r"
    using miss by auto
  with step here hit show ?case by auto
qed

lemma collect_map:
  "\<forall>x \<in> set xs. f x = Inr (g x) \<Longrightarrow> collect f xs = Inr (map g xs)"
  by (induction xs) auto

lemma inj_on_route_of:
  assumes "distinct (map truck_id trucks)" and "distinct (map shovel_id shovels)"
  shows "inj_on route_of (set (pairs trucks shovels))"
proof -
  have t: "inj_on truck_id (set trucks)" and s: "inj_on shovel_id (set shovels)"
    using assms by (simp_all add: distinct_map)
  show ?thesis
    unfolding set_pairs inj_on_def route_of_def
    using t s by (auto simp: inj_on_def)
qed

lemma formulate_ok:
  assumes "distinct (map truck_id trucks)" and "distinct (map shovel_id shovels)"
    and "costs_defined trucks shovels"
  shows "\<exists>c v. formulate trucks shovels =
           Inr (c, v, build_problem
                        (concat (map (\<lambda>p. var_times (route_of p) (pair_fuel p))
                           (pairs trucks shovels)))
                        trucks shovels) \<and>
           (\<forall>p \<in> set (pairs trucks shovels).
              c (route_of p) = Some (pair_fuel p) \<and> v (route_of p) = Some (pair_speed p))"
proof -
  let ?ps = "pairs trucks shovels"
  have e: "\<forall>p \<in> set ?ps. cost_entry p = Inr (pair_fuel p, pair_speed p)"
    using assms(3) cost_entry_costs_defined by blast
  from cost_matrix_ok[OF e inj_on_route_of[OF assms(1,2)], of "(Map.empty, Map.empty)"]
  obtain c v where cv: "cost_matrix ?ps (Map.empty, Map.empty) = Inr (c, v)"
    and hit: "\<forall>p \<in> set ?ps. c (route_of p) = Some (pair_fuel p) \<and> v (route_of p) = Some (pair_speed p)"
    by blast
  have "collect (\<lambda>p. case lookup c (route_of p) of
                      Inl e \<Rightarrow> Inl e
                    | Inr k \<Rightarrow> Inr (var_times (route_of p) k)) ?ps
      = Inr (map (\<lambda>p. var_times (route_of p) (pair_fuel p)) ?ps)"
    by (rule collect_map) (simp add: hit lookup_def)
  then have "objective_terms c trucks shovels =
      Inr (concat (map (\<lambda>p. var_times (route_of p) (pair_fuel p)) ?ps))"
    by (simp add: objective_terms_def)
  with cv hit show ?thesis
    by (simp add: formulate_def)
qed

lemma formulate_shape:
  "formulate trucks shovels = Inr (c, v, P) \<Longrightarrow>
   binaries P = routes trucks shovels \<and>
   constraints P = map (constraint_A shovels) trucks @ map (constraint_B trucks) shovels"
  by (auto simp: formulate_def build_problem_def split: sum.splits prod.splits)

subsection \<open>Feasible points of the problem\<close>

lemma lp_value_unit: "lp_value v (map (\<lambda>x. (k x, 1)) xs) = (\<Sum>x\<leftarrow>xs. v (k x))"
  by (simp add: lp_value_def comp_def)

lemma lp_value_append: "lp_value v (e @ e') = lp_value v e + lp_value v e'"
  by (simp add: lp_value_def)

lemma lp_value_products:
  "lp_value v (concat (map (\<lambda>p. var_times (k p) (F p)) ps)) = (\<Sum>p\<leftarrow>ps. F p * v (k p))"
  by (induction ps) (simp_all add: lp_value_append, simp_all add: lp_value_def var_times_def)

lemma products_empty:
  "concat (map (\<lambda>p. var_times (k p) (F p)) ps) = [] \<longleftrightarrow> (\<forall>p \<in> set ps. F p = 0)"
  by (induction ps) (auto simp: var_times_def)

lemma sum_list_pairs:
  "(\<Sum>p\<leftarrow>pairs trucks shovels. g p) = (\<Sum>t\<leftarrow>trucks. \<Sum>s\<leftarrow>shovels. g (t, s))"
  by (induction trucks) (simp_all add: pairs_def comp_def)

lemma sum_list_swap:
  "(\<Sum>x\<leftarrow>xs. \<Sum>y\<leftarrow>ys. (g x y :: real)) = (\<Sum>y\<leftarrow>ys. \<Sum>x\<leftarrow>xs. g x y)"
  by (induction xs) (simp_all add: sum_list_addf)

lemma holds_A:
  "holds v (constraint_A shovels t) \<longleftrightarrow> (\<Sum>s\<leftarrow>shovels. v (route_of (t, s))) = 1"
  by (simp add: holds_def constraint_A_def lp_value_unit)

lemma holds_B:
  "holds v (constraint_B trucks s) \<longleftrightarrow>
     (\<Sum>t\<leftarrow>trucks. v (route_of (t, s))) \<le> real_of_int (max_queue s)"
  by (simp add: holds_def constraint_B_def lp_value_unit)

lemma feasible_iff:
  assumes "binaries P = routes trucks shovels"
    and "constraints P = map (constraint_A shovels) trucks @ map (constraint_B trucks) shovels"
  shows "feasible P v \<longleftrightarrow>
     (\<forall>t \<in> set trucks. \<forall>s \<in> set shovels. v (route_of (t, s)) = 0 \<or> v (route_of (t, s)) = 1) \<and>
     (\<forall>t \<in> set trucks. (\<Sum>s\<leftarrow>shovels. v (route_of (t, s))) = 1) \<and>
     (\<forall>s \<in> set shovels. (\<Sum>t\<leftarrow>trucks. v (route_of (t, s))) \<le> real_of_int (max_queue s))"
proof -
  have b: "(\<forall>r \<in> set (binaries P). v r = 0 \<or> v r = 1) \<longleftrightarrow>
      (\<forall>t \<in> set trucks. \<forall>s \<in> set shovels. v (route_of (t, s)) = 0 \<or> v (route_of (t, s)) = 1)"
    by (auto simp: assms(1) routes_def set_pairs)
  have c: "(\<forall>c \<in> set (constraints P). holds v c) \<longleftrightarrow>
      (\<forall>t \<in> set trucks. holds v (constraint_A shovels t)) \<and>
      (\<forall>s \<in> set shovels. holds v (constraint_B trucks s))"
    by (auto simp: assms(2))
  show ?thesis
    unfolding feasible_def b c holds_A holds_B by blast
qed

lemma feasible_capacity:
  assumes "binaries P = routes trucks shovels"
    and "constraints P = map (constraint_A shovels) trucks @ map (constraint_B trucks) shovels"
    and "feasible P v"
  shows "int (length trucks) \<le> (\<Sum>s\<leftarrow>shovels. max_queue s)"
proof -
  have f: "(\<forall>t \<in> set trucks. (\<Sum>s\<leftarrow>shovels. v (route_of (t, s))) = 1)"
    "(\<forall>s \<in> set shovels. (\<Sum>t\<leftarrow>trucks. v (route_of (t, s))) \<le> real_of_int (max_queue s))"
    using assms(3) feasible_iff[OF assms(1,2)] by blast+
  have "real (length trucks) = (\<Sum>t\<leftarrow>trucks. (1::real))"
    by (simp add: sum_list_triv)
  also have "\<dots> = (\<Sum>t\<leftarrow>trucks. \<Sum>s\<leftarrow>shovels. v (route_of (t, s)))"
    using f(1) by (intro arg_cong[where f=sum_list] map_cong) auto
  also have "\<dots> = (\<Sum>s\<leftarrow>shovels. \<Sum>t\<leftarrow>trucks. v (route_of (t, s)))"
    by (rule sum_list_swap)
  also have "\<dots> \<le> (\<Sum>s\<leftarrow>shovels. real_of_int (max_queue s))"
    using f(2) by (intro sum_list_mono) auto
  also have "\<dots> = real_of_int (\<Sum>s\<leftarrow>shovels. max_queue s)"
    by (induction shovels) simp_all
  finally show ?thesis by linarith
qed

subsection \<open>Assignments and feasible points\<close>

lemma sum_list_indicator:
  "(\<Sum>x\<leftarrow>xs. if P x then (1::real) else 0) = real (length (filter P xs))"
  by (induction xs) simp_all

lemma concat_single:
  "distinct (map f xs) \<Longrightarrow> x \<in> set xs \<Longrightarrow>
   concat (map (\<lambda>y. if f x = f y then [h y] else []) xs) = [h x]"
proof (induction xs)
  case Nil
  then show ?case by simp
next
  case (Cons y ys)
  show ?case
  proof (cases "x = y")
    case True
    have "\<forall>z \<in> set ys. f y \<noteq> f z"
      using Cons.prems(1) by auto
    then have "concat (map (\<lambda>z. if f y = f z then [h z] else []) ys) = []"
      by (induction ys) auto
    with True show ?thesis by simp
  next
    case False
    then have "x \<in> set ys" using Cons.prems(2) by simp
    moreover have "f y \<notin> f ` set ys"
      using Cons.prems(1) by simp
    then have "f x \<noteq> f y"
      using \<open>x \<in> set ys\<close> by (metis imageI)
    ultimately show ?thesis
      using Cons.IH Cons.prems(1) by simp
  qed
qed

lemma binary_sum_one:
  fixes g :: "'a \<Rightarrow> real"
  assumes "distinct xs" and "\<forall>x \<in> set xs. g x = 0 \<or> g x = 1" and "sum_list (map g xs) = 1"
  shows "\<exists>x \<in> set xs. \<forall>y \<in> set xs. g y = (if y = x then 1 else 0)"
  using assms
proof (induction xs)
  case Nil
  then show ?case by simp
next
  case (Cons x xs)
  have nonneg: "\<forall>y \<in> set xs. 0 \<le> g y"
    using Cons.prems(2) by auto
  show ?case
  proof (cases "g x = 1")
    case True
    then have z: "sum_list (map g xs) = 0"
      using Cons.prems(3) by simp
    have "\<forall>y \<in> set xs. g y = 0"
    proof
      fix y assume y: "y \<in> set xs"
      have "g y \<le> sum_list (map g xs)"
        using nonneg y by (intro member_le_sum_list) auto
      with z nonneg y show "g y = 0" by fastforce
    qed
    with True Cons.prems(1) show ?thesis by auto
  next
    case False
    then have "g x = 0" using Cons.prems(2) by auto
    then have "sum_list (map g xs) = 1" using Cons.prems(3) by simp
    with Cons.IH Cons.prems(1,2)
    obtain x' where x': "x' \<in> set xs" "\<forall>y \<in> set xs. g y = (if y = x' then 1 else 0)"
      by auto
    have "x \<noteq> x'" using x'(1) Cons.prems(1) by auto
    with x' \<open>g x = 0\<close> show ?thesis by auto
  qed
qed

lemma of_assignment_route:
  "of_assignment a (route_of (t, s)) = (if a (truck_id t) = shovel_id s then 1 else 0)"
  by (simp add: of_assignment_def route_of_def)

lemma row_sum_of_assignment:
  assumes "distinct (map shovel_id shovels)" and "a (truck_id t) \<in> shovel_id ` set shovels"
  shows "(\<Sum>s\<leftarrow>shovels. of_assignment a (route_of (t, s))) = 1"
proof -
  obtain x where x: "x \<in> set shovels" "a (truck_id t) = shovel_id x"
    using assms(2) by auto
  have "length (concat (map (\<lambda>y. if shovel_id x = shovel_id y then [y] else []) shovels)) = 1"
    using concat_single[OF assms(1) x(1), of "\<lambda>y. y"] by simp
  moreover have "concat (map (\<lambda>y. if shovel_id x = shovel_id y then [y] else []) shovels)
       = filter (\<lambda>y. shovel_id x = shovel_id y) shovels"
    by (induction shovels) auto
  ultimately show ?thesis
    by (simp add: of_assignment_route x(2) sum_list_indicator)
qed

lemma col_sum_of_assignment:
  "(\<Sum>t\<leftarrow>trucks. of_assignment a (route_of (t, s))) = real (load trucks a s)"
  by (simp add: of_assignment_route sum_list_indicator load_def)

lemma feasible_of_assignment:
  assumes "binaries P = routes trucks shovels"
    and "constraints P = map (constraint_A shovels) trucks @ map (constraint_B trucks) shovels"
    and "distinct (map shovel_id shovels)" and "admissible trucks shovels a"
  shows "feasible P (of_assignment a)"
  unfolding feasible_iff[OF assms(1,2)]
proof (intro conjI ballI)
  fix t s assume "t \<in> set trucks" "s \<in> set shovels"
  show "of_assignment a (route_of (t, s)) = 0 \<or> of_assignment a (route_of (t, s)) = 1"
    by (simp add: of_assignment_def)
next
  fix t assume "t \<in> set trucks"
  then show "(\<Sum>s\<leftarrow>shovels. of_assignment a (route_of (t, s))) = 1"
    using assms(3,4) by (intro row_sum_of_assignment) (auto simp: admissible_def)
next
  fix s assume "s \<in> set shovels"
  then have "int (load trucks a s) \<le> max_queue s"
    using assms(4) by (simp add: admissible_def)
  then show "(\<Sum>t\<leftarrow>trucks. of_assignment a (route_of (t, s))) \<le> real_of_int (max_queue s)"
    unfolding col_sum_of_assignment by linarith
qed

lemma assignment_of_feasible:
  assumes "binaries P = routes trucks shovels"
    and "constraints P = map (constraint_A shovels) trucks @ map (constraint_B trucks) shovels"
    and "distinct (map shovel_id shovels)" and "feasible P v"
  shows "\<exists>a. admissible trucks shovels a \<and>
           (\<forall>p \<in> set (pairs trucks shovels). v (route_of p) = of_assignment a (route_of p))"
proof -
  have f: "\<forall>t \<in> set trucks. \<forall>s \<in> set shovels. v (route_of (t, s)) = 0 \<or> v (route_of (t, s)) = 1"
    "\<forall>t \<in> set trucks. (\<Sum>s\<leftarrow>shovels. v (route_of (t, s))) = 1"
    "\<forall>s \<in> set shovels. (\<Sum>t\<leftarrow>trucks. v (route_of (t, s))) \<le> real_of_int (max_queue s)"
    using assms(4) feasible_iff[OF assms(1,2)] by blast+
  have ds: "distinct shovels"
    using assms(3) by (simp add: distinct_map)
  have inj: "inj_on shovel_id (set shovels)"
    using assms(3) by (simp add: distinct_map)
  have "\<forall>i \<in> truck_id ` set trucks. \<exists>j. j \<in> shovel_id ` set shovels \<and>
          (\<forall>s \<in> set shovels. v (i, shovel_id s) = (if j = shovel_id s then 1 else 0))"
  proof
    fix i assume "i \<in> truck_id ` set trucks"
    then obtain t where t: "t \<in> set trucks" "i = truck_id t" by auto
    from binary_sum_one[OF ds, of "\<lambda>s. v (route_of (t, s))"] f(1,2) t(1)
    obtain x where x: "x \<in> set shovels"
      "\<forall>y \<in> set shovels. v (route_of (t, y)) = (if y = x then 1 else 0)"
      by auto
    have "\<forall>s \<in> set shovels. v (i, shovel_id s) = (if shovel_id x = shovel_id s then 1 else 0)"
    proof
      fix s assume s: "s \<in> set shovels"
      have "shovel_id x = shovel_id s \<longleftrightarrow> s = x"
        using inj s x(1) by (auto simp: inj_on_def)
      with x(2) s show "v (i, shovel_id s) = (if shovel_id x = shovel_id s then 1 else 0)"
        by (simp add: route_of_def t(2))
    qed
    with x(1) show "\<exists>j. j \<in> shovel_id ` set shovels \<and>
          (\<forall>s \<in> set shovels. v (i, shovel_id s) = (if j = shovel_id s then 1 else 0))"
      by blast
  qed
  then obtain a where a: "\<forall>i \<in> truck_id ` set trucks. a i \<in> shovel_id ` set shovels \<and>
          (\<forall>s \<in> set shovels. v (i, shovel_id s) = (if a i = shovel_id s then 1 else 0))"
    using bchoice[of "truck_id ` set trucks"
        "\<lambda>i j. j \<in> shovel_id ` set shovels \<and>
          (\<forall>s \<in> set shovels. v (i, shovel_id s) = (if j = shovel_id s then 1 else 0))"]
    by blast
  have agree: "\<forall>t \<in> set trucks. \<forall>s \<in> set shovels.
      v (route_of (t, s)) = of_assignment a (route_of (t, s))"
    using a by (simp add: of_assignment_route) (simp add: route_of_def)
  have "admissible trucks shovels a"
    unfolding admissible_def
  proof (intro conjI ballI)
    fix t assume "t \<in> set trucks"
    then show "a (truck_id t) \<in> shovel_id ` set shovels" using a by blast
  next
    fix s assume s: "s \<in> set shovels"
    have "(\<Sum>t\<leftarrow>trucks. v (route_of (t, s))) = (\<Sum>t\<leftarrow>trucks. of_assignment a (route_of (t, s)))"
      using agree s by (intro arg_cong[where f=sum_list] map_cong) auto
    moreover have "(\<Sum>t\<leftarrow>trucks. v (route_of (t, s))) \<le> real_of_int (max_queue s)"
      using f(3) s by blast
    ultimately have "real (load trucks a s) \<le> real_of_int (max_queue s)"
      by (simp only: col_sum_of_assignment)
    then show "int (load trucks a s) \<le> max_queue s" by linarith
  qed
  with agree show ?thesis
    by (auto simp: set_pairs)
qed

subsection \<open>The report under the solver contract\<close>

lemma lp_value_agree:
  "\<forall>p \<in> set ps. v (k p) = w (k p) \<Longrightarrow>
   lp_value v (concat (map (\<lambda>p. var_times (k p) (F p)) ps)) =
   lp_value w (concat (map (\<lambda>p. var_times (k p) (F p)) ps))"
  unfolding lp_value_products
  by (intro arg_cong[where f=sum_list] map_cong) auto

lemma cost_of_assignment:
  "lp_value (of_assignment a)
     (concat (map (\<lambda>p. var_times (route_of p) (pair_fuel p)) (pairs trucks shovels)))
     = assignment_cost trucks shovels a"
proof -
  have "(\<Sum>p\<leftarrow>ps. pair_fuel p * of_assignment a (route_of p)) =
        sum_list (map row_fuel
          (concat (map (\<lambda>p. if a (truck_id (fst p)) = shovel_id (snd p) then [row_of p] else []) ps)))"
    for ps
    by (induction ps) (simp_all add: of_assignment_def route_of_def row_fuel_def row_of_def)
  then show ?thesis
    by (simp add: lp_value_products assignment_cost_def assignment_rows_def)
qed

lemma assignment_rows_Cons:
  "assignment_rows (t # trucks) shovels a =
     concat (map (\<lambda>s. if a (truck_id t) = shovel_id s then [row_of (t, s)] else []) shovels)
     @ assignment_rows trucks shovels a"
  by (simp add: assignment_rows_def pairs_def comp_def)

lemma assignment_rows_one_per_truck:
  assumes "distinct (map shovel_id shovels)"
    and "\<forall>t \<in> set trucks. a (truck_id t) \<in> shovel_id ` set shovels"
  shows "map fst (assignment_rows trucks shovels a) = map truck_id trucks \<and>
         map (fst \<circ> snd) (assignment_rows trucks shovels a) = map (a \<circ> truck_id) trucks"
  using assms(2)
proof (induction trucks)
  case Nil
  then show ?case by (simp add: assignment_rows_def pairs_def)
next
  case (Cons t trucks)
  obtain x where x: "x \<in> set shovels" "a (truck_id t) = shovel_id x"
    using Cons.prems by auto
  have "concat (map (\<lambda>s. if a (truck_id t) = shovel_id s then [row_of (t, s)] else []) shovels)
      = [row_of (t, x)]"
    unfolding x(2) by (rule concat_single[OF assms(1) x(1)])
  then show ?case
    using Cons x(2) by (simp add: assignment_rows_Cons row_of_def)
qed

lemma report_rows_agree:
  assumes "\<forall>p \<in> set ps. c (route_of p) = Some (pair_fuel p) \<and> sl (route_of p) = Some (pair_speed p)"
    and "\<forall>p \<in> set ps. v (route_of p) = of_assignment a (route_of p)"
  shows "collect (report_rows v c sl) ps =
     Inr (map (\<lambda>p. if a (truck_id (fst p)) = shovel_id (snd p) then [row_of p] else []) ps)"
proof (rule collect_map, rule ballI)
  fix p assume p: "p \<in> set ps"
  have "v (route_of p) = 1 \<longleftrightarrow> a (truck_id (fst p)) = shovel_id (snd p)"
    using assms(2) p by (simp add: of_assignment_def route_of_def)
  then show "report_rows v c sl p =
     Inr (if a (truck_id (fst p)) = shovel_id (snd p) then [row_of p] else [])"
    using assms(1) p by (simp add: report_rows_def lookup_def row_of_def)
qed

lemma contract_feasible:
  assumes "solver_contract solve P" and "feasible P v0"
  obtains sol where "solve P = Inr sol" and "status sol = Optimal"
    and "feasible P (var_value sol)"
    and "\<forall>v. feasible P v \<longrightarrow> lp_value (var_value sol) (objective P) \<le> lp_value v (objective P)"
proof (cases "solve P")
  case (Inl e)
  with assms(1) show ?thesis by (simp add: solver_contract_def)
next
  case (Inr sol)
  have "\<exists>v. feasible P v" using assms(2) by blast
  with assms(1) Inr that show ?thesis
    by (simp add: solver_contract_def)
qed

lemma contract_infeasible:
  assumes "solver_contract solve P" and "\<not> (\<exists>v. feasible P v)"
  obtains sol where "solve P = Inr sol" and "status sol = Infeasible"
proof (cases "solve P")
  case (Inl e)
  with assms(1) show ?thesis by (simp add: solver_contract_def)
next
  case (Inr sol)
  with assms that show ?thesis
    by (simp add: solver_contract_def)
qed

lemma dispatch_solved:
  assumes dt: "distinct (map truck_id trucks)" and ds: "distinct (map shovel_id shovels)"
    and cd: "costs_defined trucks shovels"
    and ok: "solver_ok solve trucks shovels"
    and ex: "admissible trucks shovels a0"
  shows "\<exists>a. opt_fleet_dispatch solve trucks shovels =
            (if \<forall>p \<in> set (pairs trucks shovels). pair_fuel p = 0 then Inl TypeError
             else Inr (OptimalReport (assignment_cost trucks shovels a)
                         (assignment_rows trucks shovels a))) \<and>
          admissible trucks shovels a \<and>
          (\<forall>a'. admissible trucks shovels a' \<longrightarrow>
             assignment_cost trucks shovels a \<le> assignment_cost trucks shovels a')"
proof -
  let ?ps = "pairs trucks shovels"
  let ?obj = "concat (map (\<lambda>p. var_times (route_of p) (pair_fuel p)) ?ps)"
  let ?P = "build_problem ?obj trucks shovels"
  obtain c sl where form: "formulate trucks shovels = Inr (c, sl, ?P)"
    and look: "\<forall>p \<in> set ?ps. c (route_of p) = Some (pair_fuel p) \<and> sl (route_of p) = Some (pair_speed p)"
    using formulate_ok[OF dt ds cd] by blast
  have contract: "solver_contract solve ?P"
    using ok form by (simp add: solver_ok_def)
  have shape: "binaries ?P = routes trucks shovels"
    "constraints ?P = map (constraint_A shovels) trucks @ map (constraint_B trucks) shovels"
    "objective ?P = ?obj"
    by (simp_all add: build_problem_def)
  have feas: "feasible ?P (of_assignment a')" if "admissible trucks shovels a'" for a'
    using feasible_of_assignment[OF shape(1,2) ds that] .
  from contract_feasible[OF contract feas[OF ex]]
  obtain sol where sol: "solve ?P = Inr sol" and st: "status sol = Optimal"
    and fv: "feasible ?P (var_value sol)"
    and opt: "\<forall>v. feasible ?P v \<longrightarrow> lp_value (var_value sol) ?obj \<le> lp_value v ?obj"
    unfolding shape(3) by blast
  let ?v = "var_value sol"
  obtain a where adm: "admissible trucks shovels a"
    and agree: "\<forall>p \<in> set ?ps. ?v (route_of p) = of_assignment a (route_of p)"
    using assignment_of_feasible[OF shape(1,2) ds fv] by blast
  have total: "lp_value ?v ?obj = assignment_cost trucks shovels a"
    using lp_value_agree[OF agree, of pair_fuel] by (simp add: cost_of_assignment)
  have rows: "collect (report_rows ?v c sl) ?ps =
     Inr (map (\<lambda>p. if a (truck_id (fst p)) = shovel_id (snd p) then [row_of p] else []) ?ps)"
    by (rule report_rows_agree[OF look agree])
  have empty: "?obj = [] \<longleftrightarrow> (\<forall>p \<in> set ?ps. pair_fuel p = 0)"
    by (rule products_empty)
  have val: "objective_value ?v ?obj =
      (if \<forall>p \<in> set ?ps. pair_fuel p = 0 then None
       else Some (assignment_cost trucks shovels a))"
    by (simp only: objective_value_def empty total)
  have res: "opt_fleet_dispatch solve trucks shovels =
      (if \<forall>p \<in> set ?ps. pair_fuel p = 0 then Inl TypeError
       else Inr (OptimalReport (assignment_cost trucks shovels a)
                   (assignment_rows trucks shovels a)))"
    by (simp add: opt_fleet_dispatch_def form sol st shape(3) val rows assignment_rows_def)
  have best: "assignment_cost trucks shovels a \<le> assignment_cost trucks shovels a'"
    if "admissible trucks shovels a'" for a'
  proof -
    have "lp_value ?v ?obj \<le> lp_value (of_assignment a') ?obj"
      using opt feas[OF that] by blast
    then show ?thesis
      by (simp only: total cost_of_assignment)
  qed
  from res adm best show ?thesis by blast
qed

lemma dispatch_feasible:
  assumes dt: "distinct (map truck_id trucks)" and ds: "distinct (map shovel_id shovels)"
    and cd: "costs_defined trucks shovels"
    and ok: "solver_ok solve trucks shovels"
    and ex: "admissible trucks shovels a0"
    and nz: "\<exists>p \<in> set (pairs trucks shovels). pair_fuel p \<noteq> 0"
  shows "\<exists>a. opt_fleet_dispatch solve trucks shovels =
            Inr (OptimalReport (assignment_cost trucks shovels a) (assignment_rows trucks shovels a)) \<and>
          admissible trucks shovels a \<and>
          (\<forall>a'. admissible trucks shovels a' \<longrightarrow>
             assignment_cost trucks shovels a \<le> assignment_cost trucks shovels a')"
  using dispatch_solved[OF dt ds cd ok ex] nz by auto

lemma dispatch_none_total:
  assumes dt: "distinct (map truck_id trucks)" and ds: "distinct (map shovel_id shovels)"
    and cd: "costs_defined trucks shovels"
    and ok: "solver_ok solve trucks shovels"
    and ex: "admissible trucks shovels a0"
    and z: "\<forall>p \<in> set (pairs trucks shovels). pair_fuel p = 0"
  shows "opt_fleet_dispatch solve trucks shovels = Inl TypeError"
  using dispatch_solved[OF dt ds cd ok ex] z by auto

lemma dispatch_never_optimal:
  assumes ok: "solver_ok solve trucks shovels"
    and short: "(\<Sum>s\<leftarrow>shovels. max_queue s) < int (length trucks)"
  shows "opt_fleet_dispatch solve trucks shovels \<noteq> Inr (OptimalReport total_fuel rows)"
proof (cases "formulate trucks shovels")
  case (Inl e)
  then show ?thesis by (simp add: opt_fleet_dispatch_def)
next
  case (Inr x)
  obtain c sl P where x: "x = (c, sl, P)" by (cases x) auto
  have shape: "binaries P = routes trucks shovels"
    "constraints P = map (constraint_A shovels) trucks @ map (constraint_B trucks) shovels"
    using formulate_shape Inr x by blast+
  have none: "\<not> (\<exists>v. feasible P v)"
    using feasible_capacity[OF shape] short by fastforce
  have "solver_contract solve P"
    using ok Inr x by (simp add: solver_ok_def)
  from contract_infeasible[OF this none]
  obtain sol where "solve P = Inr sol" "status sol = Infeasible" by blast
  then show ?thesis
    using Inr x by (simp add: opt_fleet_dispatch_def)
qed

lemma dispatch_infeasible:
  assumes ok: "solver_ok solve trucks shovels"
    and short: "(\<Sum>s\<leftarrow>shovels. max_queue s) < int (length trucks)"
    and form: "formulate trucks shovels = Inr (c, sl, P)"
  shows "opt_fleet_dispatch solve trucks shovels = Inr (NoOptimalSolution Infeasible)"
proof -
  have shape: "binaries P = routes trucks shovels"
    "constraints P = map (constraint_A shovels) trucks @ map (constraint_B trucks) shovels"
    using formulate_shape form by blast+
  have none: "\<not> (\<exists>v. feasible P v)"
    using feasible_capacity[OF shape] short by fastforce
  have "solver_contract solve P"
    using ok form by (simp add: solver_ok_def)
  from contract_infeasible[OF this none]
  obtain sol where "solve P = Inr sol" "status sol = Infeasible" by blast
  then show ?thesis
    using form by (simp add: opt_fleet_dispatch_def)
qed

subsection \<open>The reference solver meets the contract\<close>

lemma candidates_complete:
  "(\<forall>r \<in> set rs. w r = 0 \<or> w r = 1) \<Longrightarrow> (\<forall>r. r \<notin> set rs \<longrightarrow> w r = 0) \<Longrightarrow>
   w \<in> set (candidates rs)"
proof (induction rs arbitrary: w)
  case Nil
  then show ?case by auto
next
  case (Cons r rs)
  let ?v = "if r \<in> set rs then w else w(r := 0)"
  have "?v \<in> set (candidates rs)"
    using Cons.prems by (intro Cons.IH) auto
  moreover have "w = ?v(r := 0) \<or> w = ?v(r := 1)"
    using Cons.prems(1) by (auto simp: fun_eq_iff)
  ultimately show ?case by auto
qed

lemma lp_value_cong:
  "\<forall>r \<in> fst ` set e. v r = w r \<Longrightarrow> lp_value v e = lp_value w e"
  unfolding lp_value_def
  by (intro arg_cong[where f=sum_list] map_cong) auto

lemma cheapest_least:
  "cheapest obj v vs \<in> set (v # vs) \<and>
   (\<forall>w \<in> set (v # vs). lp_value (cheapest obj v vs) obj \<le> lp_value w obj)"
  unfolding cheapest_def
proof (induction vs arbitrary: v)
  case Nil
  then show ?case by simp
next
  case (Cons u us)
  let ?b = "if lp_value u obj < lp_value v obj then u else v"
  have "fold (\<lambda>w best. if lp_value w obj < lp_value best obj then w else best) (u # us) v
      = fold (\<lambda>w best. if lp_value w obj < lp_value best obj then w else best) us ?b"
    by simp
  moreover have "lp_value ?b obj \<le> lp_value u obj" "lp_value ?b obj \<le> lp_value v obj"
    by auto
  ultimately show ?case
    using Cons.IH[of ?b] by (auto split: if_splits intro: order_trans)
qed

lemma restrict_feasible:
  assumes "closed_problem P" and "feasible P v"
  defines "w \<equiv> \<lambda>r. if r \<in> set (binaries P) then v r else 0"
  shows "w \<in> set (candidates (binaries P))" and "feasible P w"
    and "lp_value w (objective P) = lp_value v (objective P)"
proof -
  show "w \<in> set (candidates (binaries P))"
    using assms(2) by (intro candidates_complete) (auto simp: w_def feasible_def)
  have same: "lp_value w e = lp_value v e" if "fst ` set e \<subseteq> set (binaries P)" for e
    using that by (intro lp_value_cong) (auto simp: w_def)
  show "lp_value w (objective P) = lp_value v (objective P)"
    using assms(1) by (intro same) (simp add: closed_problem_def)
  have "holds w c = holds v c" if "c \<in> set (constraints P)" for c
  proof -
    have "lp_value w (lhs c) = lp_value v (lhs c)"
      using assms(1) that by (intro same) (simp add: closed_problem_def)
    then show ?thesis by (cases "rel c") (simp_all add: holds_def)
  qed
  then show "feasible P w"
    using assms(2) by (auto simp: feasible_def w_def)
qed

lemma exhaustive_solve_contract:
  assumes "closed_problem P"
  shows "solver_contract exhaustive_solve P"
proof (cases "filter (feasible P) (candidates (binaries P))")
  case Nil
  have "\<not> (\<exists>v. feasible P v)"
  proof
    assume "\<exists>v. feasible P v"
    then obtain v where "feasible P v" ..
    from restrict_feasible(1,2)[OF assms this]
    have "filter (feasible P) (candidates (binaries P)) \<noteq> []"
      by (auto simp: filter_empty_conv)
    with Nil show False by simp
  qed
  then show ?thesis
    using Nil by (simp add: solver_contract_def exhaustive_solve_def)
next
  case (Cons u us)
  let ?b = "cheapest (objective P) u us"
  have mem: "?b \<in> set (filter (feasible P) (candidates (binaries P)))"
    and least: "\<forall>w \<in> set (filter (feasible P) (candidates (binaries P))).
       lp_value ?b (objective P) \<le> lp_value w (objective P)"
    using cheapest_least[of "objective P" u us] Cons by simp_all
  have fb: "feasible P ?b" using mem by simp
  have "lp_value ?b (objective P) \<le> lp_value v (objective P)" if "feasible P v" for v
  proof -
    let ?w = "\<lambda>r. if r \<in> set (binaries P) then v r else 0"
    have "?w \<in> set (filter (feasible P) (candidates (binaries P)))"
      using restrict_feasible(1,2)[OF assms that] by simp
    with least have "lp_value ?b (objective P) \<le> lp_value ?w (objective P)"
      by blast
    then show ?thesis
      using restrict_feasible(3)[OF assms that] by simp
  qed
  with fb show ?thesis
    using Cons by (auto simp: solver_contract_def exhaustive_solve_def)
qed

lemma collect_Inr:
  "collect f xs = Inr ys \<Longrightarrow> y \<in> set ys \<Longrightarrow> \<exists>x \<in> set xs. f x = Inr y"
  by (induction xs arbitrary: ys) (auto split: sum.splits)

lemma formulate_closed:
  assumes "formulate trucks shovels = Inr (c, sl, P)"
  shows "closed_problem P"
proof -
  let ?f = "\<lambda>p. case lookup c (route_of p) of
                   Inl e \<Rightarrow> Inl e
                 | Inr k \<Rightarrow> Inr (var_times (route_of p) k)"
  obtain products where pr: "collect ?f (pairs trucks shovels) = Inr products"
    and P: "P = build_problem (concat products) trucks shovels"
    using assms
    by (auto simp: formulate_def objective_terms_def split: sum.splits prod.splits)
  have "fst ` set (concat products) \<subseteq> set (routes trucks shovels)"
  proof
    fix r assume "r \<in> fst ` set (concat products)"
    then obtain ts y where y: "ts \<in> set products" "y \<in> set ts" "r = fst y" by auto
    from collect_Inr[OF pr y(1)]
    obtain p where p: "p \<in> set (pairs trucks shovels)" "?f p = Inr ts"
      by blast
    then obtain k where "ts = var_times (route_of p) k"
      by (auto split: sum.splits)
    with y(2,3) have "r = route_of p"
      by (auto simp: var_times_def split: if_splits)
    with p(1) show "r \<in> set (routes trucks shovels)"
      by (simp add: routes_def)
  qed
  then have o: "fst ` set (objective P) \<subseteq> set (binaries P)"
    by (simp add: P build_problem_def)
  have A: "fst ` set (lhs (constraint_A shovels t)) \<subseteq> set (routes trucks shovels)"
    if "t \<in> set trucks" for t
    using that by (auto simp: constraint_A_def routes_def set_pairs)
  have B: "fst ` set (lhs (constraint_B trucks s)) \<subseteq> set (routes trucks shovels)"
    if "s \<in> set shovels" for s
    using that by (auto simp: constraint_B_def routes_def set_pairs)
  have "fst ` set (lhs k) \<subseteq> set (binaries P)" if "k \<in> set (constraints P)" for k
  proof -
    from that consider t where "t \<in> set trucks" "k = constraint_A shovels t"
      | s where "s \<in> set shovels" "k = constraint_B trucks s"
      by (auto simp: P build_problem_def)
    then show ?thesis
    proof cases
      case 1
      then show ?thesis using A by (simp add: P build_problem_def)
    next
      case 2
      then show ?thesis using B by (simp add: P build_problem_def)
    qed
  qed
  with o show ?thesis
    by (simp add: closed_problem_def)
qed

lemma exhaustive_solve_ok: "solver_ok exhaustive_solve trucks shovels"
  unfolding solver_ok_def
  by (auto split: sum.splits intro: exhaustive_solve_contract formulate_closed)

subsection \<open>Failure of the cost matrix, and the data of the run\<close>

lemma cost_matrix_dom:
  "\<forall>p \<in> set ps. \<exists>x. cost_entry p = Inr x \<Longrightarrow>
   \<exists>c v. cost_matrix ps acc = Inr (c, v) \<and>
     (\<forall>r. r \<in> route_of ` set ps \<or> fst acc r \<noteq> None \<longrightarrow> c r \<noteq> None)"
proof (induction ps arbitrary: acc)
  case Nil
  then show ?case by (cases acc) simp
next
  case (Cons p ps)
  obtain f s where fs: "cost_entry p = Inr (f, s)"
    using Cons.prems by fastforce
  let ?acc = "((fst acc)(route_of p \<mapsto> f), (snd acc)(route_of p \<mapsto> s))"
  from Cons.IH[of ?acc] Cons.prems
  obtain c v where cv: "cost_matrix ps ?acc = Inr (c, v)"
    and d: "\<forall>r. r \<in> route_of ` set ps \<or> fst ?acc r \<noteq> None \<longrightarrow> c r \<noteq> None"
    by auto
  have "\<forall>r. r \<in> route_of ` set (p # ps) \<or> fst acc r \<noteq> None \<longrightarrow> c r \<noteq> None"
  proof (intro allI impI)
    fix r assume "r \<in> route_of ` set (p # ps) \<or> fst acc r \<noteq> None"
    then have "r \<in> route_of ` set ps \<or> fst ?acc r \<noteq> None" by auto
    with d show "c r \<noteq> None" by blast
  qed
  with cv fs show ?case by simp
qed

lemma collect_succeeds:
  "\<forall>x \<in> set xs. \<exists>y. f x = Inr y \<Longrightarrow> \<exists>ys. collect f xs = Inr ys"
  by (induction xs) auto

lemma formulate_succeeds:
  assumes "costs_defined trucks shovels"
  shows "\<exists>c sl P. formulate trucks shovels = Inr (c, sl, P)"
proof -
  have "\<forall>p \<in> set (pairs trucks shovels). \<exists>x. cost_entry p = Inr x"
    using cost_entry_costs_defined[OF assms] by blast
  from cost_matrix_dom[OF this, of "(Map.empty, Map.empty)"]
  obtain c v where cv: "cost_matrix (pairs trucks shovels) (Map.empty, Map.empty) = Inr (c, v)"
    and d: "\<forall>r. r \<in> route_of ` set (pairs trucks shovels) \<longrightarrow> c r \<noteq> None"
    by auto
  have "\<exists>y. (case lookup c (route_of p) of
               Inl e \<Rightarrow> Inl e
             | Inr k \<Rightarrow> Inr (var_times (route_of p) k)) = Inr y"
    if "p \<in> set (pairs trucks shovels)" for p
  proof -
    have "c (route_of p) \<noteq> None" using d that by blast
    then show ?thesis by (auto simp: lookup_def)
  qed
  then have "\<exists>ys. collect (\<lambda>p. case lookup c (route_of p) of
                                  Inl e \<Rightarrow> Inl e
                                | Inr k \<Rightarrow> Inr (var_times (route_of p) k))
                   (pairs trucks shovels) = Inr ys"
    by (intro collect_succeeds) blast
  then have "\<exists>obj. objective_terms c trucks shovels = Inr obj"
    by (auto simp: objective_terms_def)
  with cv show ?thesis
    by (auto simp: formulate_def)
qed

lemma cost_entry_degenerate:
  assumes "25 \<le> max (grade_percent (snd p)) 0"
    and "distance_from_trucks (snd p) (truck_id (fst p)) \<noteq> None"
  shows "cost_entry p = Inl TypeError"
proof -
  have "\<not> 0 < get_optimal_speed (max (grade_percent (snd p)) 0)"
    using assms(1) by (subst get_optimal_speed_pos_iff) simp_all
  then have "get_optimal_speed (max (grade_percent (snd p)) 0) \<le> 0"
    by simp
  then have "calculate_fuel_cost d (grade_percent (snd p)) = ScalarInf" for d
    by (rule calculate_fuel_cost_inf)
  then show ?thesis
    using assms(2) by (auto simp: cost_entry_def)
qed

lemma cost_entry_error:
  "cost_entry p = Inl e \<Longrightarrow> distance_from_trucks (snd p) (truck_id (fst p)) \<noteq> None \<Longrightarrow>
   e = TypeError"
  by (auto simp: cost_entry_def split: option.splits fuel_result.splits)

lemma dispatch_type_error:
  assumes "t \<in> set trucks" "s \<in> set shovels" "25 \<le> max (grade_percent s) 0"
    and "\<forall>t \<in> set trucks. \<forall>s \<in> set shovels. distance_from_trucks s (truck_id t) \<noteq> None"
  shows "opt_fleet_dispatch solve trucks shovels = Inl TypeError"
proof -
  let ?ps = "pairs trucks shovels"
  have "(t, s) \<in> set ?ps" using assms(1,2) by (simp add: set_pairs)
  moreover have "cost_entry (t, s) = Inl TypeError"
    using assms by (intro cost_entry_degenerate) auto
  ultimately obtain e where e: "cost_matrix ?ps (Map.empty, Map.empty) = Inl e"
    using cost_matrix_fails by blast
  then obtain p where "p \<in> set ?ps" "cost_entry p = Inl e"
    using cost_matrix_Inl by blast
  then have "e = TypeError"
    using assms(4) by (intro cost_entry_error[of p]) (auto simp: set_pairs)
  with e show ?thesis
    by (simp add: opt_fleet_dispatch_def formulate_def)
qed

lemma fleet_distinct: "distinct (map truck_id truck_fleet)"
  by (simp add: truck_fleet_def)

lemma shovels_distinct: "distinct (map shovel_id (shovel_data gA gB))"
  by (simp add: shovel_data_def)

lemma data_costs_defined: "max gA 0 < 25 \<Longrightarrow> max gB 0 < 25 \<Longrightarrow> costs_defined truck_fleet (shovel_data gA gB)"
  by (simp add: costs_defined_def truck_fleet_def shovel_data_def)

lemma nearest_admissible: "admissible truck_fleet (shovel_data gA gB) nearest_shovel"
  by (simp add: admissible_def truck_fleet_def shovel_data_def nearest_shovel_def load_def)

lemma flat_rows:
  "assignment_rows truck_fleet (shovel_data 0 0) a =
     (if a ''Truck_1'' = ''Shovel_A'' then [(''Truck_1'', ''Shovel_A'', 40, 9)] else []) @
     (if a ''Truck_1'' = ''Shovel_B'' then [(''Truck_1'', ''Shovel_B'', 40, 36)] else []) @
     (if a ''Truck_2'' = ''Shovel_A'' then [(''Truck_2'', ''Shovel_A'', 40, 45 / 2)] else []) @
     (if a ''Truck_2'' = ''Shovel_B'' then [(''Truck_2'', ''Shovel_B'', 40, 9 / 2)] else []) @
     (if a ''Truck_3'' = ''Shovel_A'' then [(''Truck_3'', ''Shovel_A'', 40, 27 / 2)] else []) @
     (if a ''Truck_3'' = ''Shovel_B'' then [(''Truck_3'', ''Shovel_B'', 40, 81 / 2)] else [])"
  by (simp add: assignment_rows_def pairs_def truck_fleet_def shovel_data_def row_of_def
      pair_fuel_def pair_speed_def cost_entry_def calculate_fuel_cost_def get_optimal_speed_cases)

section \<open>The claims about the optimizer\<close>

lemma flat_cost_nearest: "assignment_cost truck_fleet (shovel_data 0 0) nearest_shovel = 27"
  by (simp add: assignment_cost_def flat_rows nearest_shovel_def row_fuel_def)

lemma flat_nonzero: "\<exists>p \<in> set (pairs truck_fleet (shovel_data 0 0)). pair_fuel p \<noteq> 0"
proof (rule bexI)
  show "pair_fuel (\<lparr>truck_id = ''Truck_1''\<rparr>, hd (shovel_data 0 0)) \<noteq> 0"
    by (simp add: pair_fuel_def cost_entry_def shovel_data_def calculate_fuel_cost_def
        get_optimal_speed_cases)
  show "(\<lparr>truck_id = ''Truck_1''\<rparr>, hd (shovel_data 0 0)) \<in> set (pairs truck_fleet (shovel_data 0 0))"
    by (simp add: set_pairs truck_fleet_def shovel_data_def)
qed

lemma graded_nonzero: "\<exists>p \<in> set (pairs truck_fleet (shovel_data 5 10)). pair_fuel p \<noteq> 0"
proof (rule bexI)
  show "pair_fuel (\<lparr>truck_id = ''Truck_1''\<rparr>, hd (shovel_data 5 10)) \<noteq> 0"
    by (simp add: pair_fuel_def cost_entry_def shovel_data_def calculate_fuel_cost_def
        get_optimal_speed_cases)
  show "(\<lparr>truck_id = ''Truck_1''\<rparr>, hd (shovel_data 5 10)) \<in> set (pairs truck_fleet (shovel_data 5 10))"
    by (simp add: set_pairs truck_fleet_def shovel_data_def)
qed

text \<open>
  What the optimizer does away from its two failure paths. Let the truck ids and the
  shovel ids be distinct, let every pair have a distance entry and every shovel a clamped
  grade below 25, let some route have a non-zero fuel cost, and let the solver meet its
  contract on the problem built. If an admissible assignment exists, the optimizer prints
  status Optimal with the table of an assignment \<open>a\<close>: one row per truck, in the order of
  the list, to the shovel \<open>a\<close> gives it; \<open>a\<close> is admissible, so no shovel receives more
  trucks than its \<open>max_queue\<close>; the total printed is the sum of the fuel of the rows, and
  no admissible assignment costs less.
\<close>

lemma dispatch_optimal:
  assumes "distinct (map truck_id trucks)" and "distinct (map shovel_id shovels)"
    and "costs_defined trucks shovels"
    and "solver_ok solve trucks shovels"
    and "admissible trucks shovels a0"
    and "\<exists>p \<in> set (pairs trucks shovels). pair_fuel p \<noteq> 0"
  shows "\<exists>a. opt_fleet_dispatch solve trucks shovels =
            Inr (OptimalReport (assignment_cost trucks shovels a) (assignment_rows trucks shovels a)) \<and>
          map fst (assignment_rows trucks shovels a) = map truck_id trucks \<and>
          map (fst \<circ> snd) (assignment_rows trucks shovels a) = map (a \<circ> truck_id) trucks \<and>
          admissible trucks shovels a \<and>
          (\<forall>a'. admissible trucks shovels a' \<longrightarrow>
             assignment_cost trucks shovels a \<le> assignment_cost trucks shovels a')"
proof -
  from dispatch_feasible[OF assms]
  obtain a where a: "opt_fleet_dispatch solve trucks shovels =
            Inr (OptimalReport (assignment_cost trucks shovels a) (assignment_rows trucks shovels a))"
    "admissible trucks shovels a"
    "\<forall>a'. admissible trucks shovels a' \<longrightarrow>
             assignment_cost trucks shovels a \<le> assignment_cost trucks shovels a'"
    by blast
  have "\<forall>t \<in> set trucks. a (truck_id t) \<in> shovel_id ` set shovels"
    using a(2) by (simp add: admissible_def)
  from assignment_rows_one_per_truck[OF assms(2) this] a show ?thesis
    by blast
qed

lemma dispatch_optimal_on_graded_roads:
  "\<exists>a. opt_fleet_dispatch exhaustive_solve truck_fleet (shovel_data 5 10) =
            Inr (OptimalReport (assignment_cost truck_fleet (shovel_data 5 10) a)
                  (assignment_rows truck_fleet (shovel_data 5 10) a)) \<and>
          map fst (assignment_rows truck_fleet (shovel_data 5 10) a) = map truck_id truck_fleet \<and>
          admissible truck_fleet (shovel_data 5 10) a \<and>
          (\<forall>a'. admissible truck_fleet (shovel_data 5 10) a' \<longrightarrow>
             assignment_cost truck_fleet (shovel_data 5 10) a
               \<le> assignment_cost truck_fleet (shovel_data 5 10) a')"
proof -
  have cd: "costs_defined truck_fleet (shovel_data 5 10)"
    by (rule data_costs_defined) simp_all
  show ?thesis
    using dispatch_optimal[OF fleet_distinct shovels_distinct cd exhaustive_solve_ok
        nearest_admissible graded_nonzero]
    by blast
qed

text \<open>
  Claim C1, the behaviour of the code at two failing inputs, each with an assignment
  that respects the queue limits.

  \<^verbatim>\<open>Truck_1\<close> standing at the only shovel, on a flat road: the one route costs 0
  liters, the objective has no term, the total read back is \<^verbatim>\<open>None\<close>, and the
  format at line 117 raises \<open>TypeError\<close> under status Optimal.

  The fleet of the run with queue limits of 3 and a 25 percent road to
  \<^verbatim>\<open>Shovel_A\<close>: all three trucks can go to \<^verbatim>\<open>Shovel_B\<close> for 36, 4.5 and
  40.5 liters, and the unpacking at line 88 raises \<open>TypeError\<close> before any problem is
  built.
\<close>

theorem dispatch_raises_where_assignment_exists:
  "opt_fleet_dispatch exhaustive_solve truck_1 shovel_at_truck_1 = Inl TypeError \<and>
   assignment_rows truck_1 shovel_at_truck_1 to_shovel_A = [(''Truck_1'', ''Shovel_A'', 40, 0)] \<and>
   int (load truck_1 to_shovel_A (hd shovel_at_truck_1)) \<le> max_queue (hd shovel_at_truck_1) \<and>
   opt_fleet_dispatch exhaustive_solve truck_fleet (with_capacity 3 (shovel_data 25 0))
     = Inl TypeError \<and>
   assignment_rows truck_fleet (with_capacity 3 (shovel_data 25 0)) to_shovel_B =
     [(''Truck_1'', ''Shovel_B'', 40, 36), (''Truck_2'', ''Shovel_B'', 40, 9 / 2),
      (''Truck_3'', ''Shovel_B'', 40, 81 / 2)] \<and>
   int (load truck_fleet to_shovel_B (last (with_capacity 3 (shovel_data 25 0))))
     \<le> max_queue (last (with_capacity 3 (shovel_data 25 0)))"
proof -
  have dt: "distinct (map truck_id truck_1)"
    by (simp add: truck_1_def)
  have ds: "distinct (map shovel_id shovel_at_truck_1)"
    by (simp add: shovel_at_truck_1_def)
  have cd: "costs_defined truck_1 shovel_at_truck_1"
    by (simp add: costs_defined_def truck_1_def shovel_at_truck_1_def)
  have adm: "admissible truck_1 shovel_at_truck_1 to_shovel_A"
    by (simp add: admissible_def truck_1_def shovel_at_truck_1_def to_shovel_A_def load_def)
  have zero: "\<forall>p \<in> set (pairs truck_1 shovel_at_truck_1). pair_fuel p = 0"
    by (simp add: set_pairs truck_1_def shovel_at_truck_1_def pair_fuel_def cost_entry_def
        calculate_fuel_cost_def get_optimal_speed_cases)
  have 1: "opt_fleet_dispatch exhaustive_solve truck_1 shovel_at_truck_1 = Inl TypeError"
    by (rule dispatch_none_total[OF dt ds cd exhaustive_solve_ok adm zero])
  have 2: "assignment_rows truck_1 shovel_at_truck_1 to_shovel_A
      = [(''Truck_1'', ''Shovel_A'', 40, 0)]"
    by (simp add: assignment_rows_def pairs_def truck_1_def shovel_at_truck_1_def
        to_shovel_A_def row_of_def pair_fuel_def pair_speed_def cost_entry_def
        calculate_fuel_cost_def get_optimal_speed_cases)
  have 3: "int (load truck_1 to_shovel_A (hd shovel_at_truck_1)) \<le> max_queue (hd shovel_at_truck_1)"
    by (simp add: truck_1_def shovel_at_truck_1_def to_shovel_A_def load_def)
  have 4: "opt_fleet_dispatch exhaustive_solve truck_fleet (with_capacity 3 (shovel_data 25 0))
      = Inl TypeError"
    by (rule dispatch_type_error[of "\<lparr>truck_id = ''Truck_1''\<rparr>" _
          "hd (with_capacity 3 (shovel_data 25 0))"])
      (simp_all add: truck_fleet_def shovel_data_def with_capacity_def)
  have 5: "assignment_rows truck_fleet (with_capacity 3 (shovel_data 25 0)) to_shovel_B =
     [(''Truck_1'', ''Shovel_B'', 40, 36), (''Truck_2'', ''Shovel_B'', 40, 9 / 2),
      (''Truck_3'', ''Shovel_B'', 40, 81 / 2)]"
    by (simp add: assignment_rows_def pairs_def truck_fleet_def shovel_data_def with_capacity_def
        to_shovel_B_def row_of_def pair_fuel_def pair_speed_def cost_entry_def
        calculate_fuel_cost_def get_optimal_speed_cases)
  have 6: "int (load truck_fleet to_shovel_B (last (with_capacity 3 (shovel_data 25 0))))
     \<le> max_queue (last (with_capacity 3 (shovel_data 25 0)))"
    by (simp add: truck_fleet_def shovel_data_def with_capacity_def to_shovel_B_def load_def)
  from 1 2 3 4 5 6 show ?thesis by blast
qed

text \<open>
  Claim C2. For the three trucks and two shovels of the simulation run, both of capacity
  2 and both roads at grade 0, every solver that meets its contract makes the optimizer
  print the total 27 = 180 \<sdot> (2/40 + 3/40 + 1/40) liters and the rows
  \<^verbatim>\<open>Truck_1\<close> to \<^verbatim>\<open>Shovel_A\<close>, \<^verbatim>\<open>Truck_2\<close> to \<^verbatim>\<open>Shovel_B\<close>,
  \<^verbatim>\<open>Truck_3\<close> to \<^verbatim>\<open>Shovel_A\<close>, each at 40 km/h.
\<close>

theorem simulation_run_optimum:
  assumes "solver_ok solve truck_fleet (shovel_data 0 0)"
  shows "opt_fleet_dispatch solve truck_fleet (shovel_data 0 0) =
     Inr (OptimalReport 27
       [(''Truck_1'', ''Shovel_A'', 40, 9), (''Truck_2'', ''Shovel_B'', 40, 9 / 2),
        (''Truck_3'', ''Shovel_A'', 40, 27 / 2)]) \<and>
     (27::real) = 180 * (2 / 40 + 3 / 40 + 1 / 40)"
proof -
  have cd: "costs_defined truck_fleet (shovel_data 0 0)"
    by (rule data_costs_defined) simp_all
  from dispatch_feasible[OF fleet_distinct shovels_distinct cd assms nearest_admissible
      flat_nonzero]
  obtain a where res: "opt_fleet_dispatch solve truck_fleet (shovel_data 0 0) =
            Inr (OptimalReport (assignment_cost truck_fleet (shovel_data 0 0) a)
                  (assignment_rows truck_fleet (shovel_data 0 0) a))"
    and adm: "admissible truck_fleet (shovel_data 0 0) a"
    and best: "\<forall>a'. admissible truck_fleet (shovel_data 0 0) a' \<longrightarrow>
             assignment_cost truck_fleet (shovel_data 0 0) a \<le> assignment_cost truck_fleet (shovel_data 0 0) a'"
    by blast
  have le: "assignment_cost truck_fleet (shovel_data 0 0) a \<le> 27"
    using best nearest_admissible flat_cost_nearest by metis
  have dom: "a ''Truck_1'' = ''Shovel_A'' \<or> a ''Truck_1'' = ''Shovel_B''"
    "a ''Truck_2'' = ''Shovel_A'' \<or> a ''Truck_2'' = ''Shovel_B''"
    "a ''Truck_3'' = ''Shovel_A'' \<or> a ''Truck_3'' = ''Shovel_B''"
    using adm by (simp_all add: admissible_def truck_fleet_def shovel_data_def)
  have ne: "''Shovel_A'' \<noteq> ''Shovel_B''" by simp
  have pick: "a ''Truck_1'' = ''Shovel_A'' \<and> a ''Truck_2'' = ''Shovel_B'' \<and> a ''Truck_3'' = ''Shovel_A''"
    using le dom unfolding assignment_cost_def flat_rows row_fuel_def
    by (auto split: if_splits)
  then have "assignment_rows truck_fleet (shovel_data 0 0) a =
       [(''Truck_1'', ''Shovel_A'', 40, 9), (''Truck_2'', ''Shovel_B'', 40, 9 / 2),
        (''Truck_3'', ''Shovel_A'', 40, 27 / 2)]"
    by (simp add: flat_rows)
  moreover from this have "assignment_cost truck_fleet (shovel_data 0 0) a = 27"
    by (simp add: assignment_cost_def row_fuel_def)
  ultimately show ?thesis
    using res by simp
qed

theorem simulation_run_optimum_witness:
  "solver_ok exhaustive_solve truck_fleet (shovel_data 0 0) \<and>
   opt_fleet_dispatch exhaustive_solve truck_fleet (shovel_data 0 0) =
     Inr (OptimalReport 27
       [(''Truck_1'', ''Shovel_A'', 40, 9), (''Truck_2'', ''Shovel_B'', 40, 9 / 2),
        (''Truck_3'', ''Shovel_A'', 40, 27 / 2)])"
  using simulation_run_optimum[OF exhaustive_solve_ok] exhaustive_solve_ok by blast

text \<open>
  What the optimizer does on a capacity shortfall when the cost matrix can be built. Let
  the solver meet its contract on the problem built, and let the capacities sum to less
  than the number of trucks. Then the optimizer never prints an optimal table; and when
  every pair has a distance entry and every shovel a clamped grade below 25, it prints
  the no-solution message under status Infeasible.
\<close>

lemma capacity_shortfall_reported:
  assumes "solver_ok solve trucks shovels"
    and "(\<Sum>s\<leftarrow>shovels. max_queue s) < int (length trucks)"
  shows "(costs_defined trucks shovels \<longrightarrow>
            opt_fleet_dispatch solve trucks shovels = Inr (NoOptimalSolution Infeasible)) \<and>
         (\<forall>total_fuel rows.
            opt_fleet_dispatch solve trucks shovels \<noteq> Inr (OptimalReport total_fuel rows))"
proof (intro conjI impI allI)
  assume "costs_defined trucks shovels"
  then obtain c sl P where "formulate trucks shovels = Inr (c, sl, P)"
    using formulate_succeeds by blast
  then show "opt_fleet_dispatch solve trucks shovels = Inr (NoOptimalSolution Infeasible)"
    by (rule dispatch_infeasible[OF assms])
next
  fix total_fuel rows
  show "opt_fleet_dispatch solve trucks shovels \<noteq> Inr (OptimalReport total_fuel rows)"
    by (rule dispatch_never_optimal[OF assms])
qed

lemma capacity_shortfall_on_flat_roads:
  "opt_fleet_dispatch exhaustive_solve truck_fleet (with_capacity 1 (shovel_data 0 0)) =
     Inr (NoOptimalSolution Infeasible)"
proof -
  have short: "(\<Sum>s\<leftarrow>with_capacity 1 (shovel_data 0 0). max_queue s) < int (length truck_fleet)"
    by (simp add: truck_fleet_def shovel_data_def with_capacity_def)
  have cd: "costs_defined truck_fleet (with_capacity 1 (shovel_data 0 0))"
    by (simp add: costs_defined_def truck_fleet_def shovel_data_def with_capacity_def)
  show ?thesis
    using capacity_shortfall_reported[OF exhaustive_solve_ok short] cd by blast
qed

text \<open>
  Claim C3, the behaviour of the code at a failing input. Three trucks, queue limits of 1
  and 1, a 25 percent road to \<^verbatim>\<open>Shovel_A\<close> and a flat road to
  \<^verbatim>\<open>Shovel_B\<close>: the capacities sum to 2, fewer than the trucks, and the call ends in
  the \<open>TypeError\<close> of the unpacking at line 88 before the solver runs, so that no
  outcome, infeasible or other, is reported.
\<close>

theorem capacity_shortfall_type_error:
  "sum_list (map max_queue (with_capacity 1 (shovel_data 25 0))) = 2 \<and>
   length truck_fleet = 3 \<and>
   opt_fleet_dispatch exhaustive_solve truck_fleet (with_capacity 1 (shovel_data 25 0))
     = Inl TypeError"
proof -
  have "opt_fleet_dispatch exhaustive_solve truck_fleet (with_capacity 1 (shovel_data 25 0))
      = Inl TypeError"
    by (rule dispatch_type_error[of "\<lparr>truck_id = ''Truck_1''\<rparr>" _
          "hd (with_capacity 1 (shovel_data 25 0))"])
      (simp_all add: truck_fleet_def shovel_data_def with_capacity_def)
  moreover have "sum_list (map max_queue (with_capacity 1 (shovel_data 25 0))) = 2"
    by (simp add: shovel_data_def with_capacity_def)
  moreover have "length truck_fleet = 3"
    by (simp add: truck_fleet_def)
  ultimately show ?thesis by blast
qed

text \<open>
  Claim C6, the behaviour of the code at a failing input. One truck, the two shovels of
  the run, a 25 percent road to \<^verbatim>\<open>Shovel_A\<close> and a flat road to \<^verbatim>\<open>Shovel_B\<close>:
  \<open>calculate_fuel_cost\<close> returns the bare infinity for the steep road, the route to
  \<^verbatim>\<open>Shovel_B\<close> costs 36 liters and is within its queue limit, and the optimizer raises
  \<open>TypeError\<close> instead of taking it.
\<close>

theorem degenerate_route_aborts_dispatch:
  "calculate_fuel_cost 2 25 = ScalarInf \<and>
   to_shovel_B ''Truck_1'' = shovel_id (last (shovel_data 25 0)) \<and>
   int (load truck_1 to_shovel_B (last (shovel_data 25 0))) \<le> max_queue (last (shovel_data 25 0)) \<and>
   assignment_rows truck_1 (shovel_data 25 0) to_shovel_B = [(''Truck_1'', ''Shovel_B'', 40, 36)] \<and>
   opt_fleet_dispatch exhaustive_solve truck_1 (shovel_data 25 0) = Inl TypeError"
proof -
  have "opt_fleet_dispatch exhaustive_solve truck_1 (shovel_data 25 0) = Inl TypeError"
    by (rule dispatch_type_error[of "\<lparr>truck_id = ''Truck_1''\<rparr>" _ "hd (shovel_data 25 0)"])
      (simp_all add: truck_1_def shovel_data_def)
  moreover have "to_shovel_B ''Truck_1'' = shovel_id (last (shovel_data 25 0))"
    by (simp add: shovel_data_def to_shovel_B_def)
  moreover have "int (load truck_1 to_shovel_B (last (shovel_data 25 0)))
      \<le> max_queue (last (shovel_data 25 0))"
    by (simp add: truck_1_def shovel_data_def to_shovel_B_def load_def)
  moreover have "assignment_rows truck_1 (shovel_data 25 0) to_shovel_B = [(''Truck_1'', ''Shovel_B'', 40, 36)]"
    by (simp add: assignment_rows_def pairs_def truck_1_def shovel_data_def to_shovel_B_def row_of_def
      pair_fuel_def pair_speed_def cost_entry_def calculate_fuel_cost_def get_optimal_speed_cases)
  moreover have "calculate_fuel_cost 2 25 = ScalarInf"
    by (simp add: calculate_fuel_cost_def get_optimal_speed_cases)
  ultimately show ?thesis by blast
qed



end
